theory Spec2Isabelle
  imports Main "HOL-Library.Word" "HOL-Library.Char_ord" "HOL-Library.List_Lexorder"
begin

section \<open>Errors and basic data\<close>

text \<open>
  Every \<^verbatim>\<open>throw\<close> of \<^verbatim>\<open>src/index.ts\<close> and every exception of the JavaScript
  built-ins it calls is a value of \<open>error\<close>; a function that can throw returns
  \<open>error + 'a\<close> with \<open>Inl\<close> for the exception. A rejected promise is the same \<open>Inl\<close>.
\<close>

datatype error =
    MissingRecoveryParam \<comment> \<open>\<^verbatim>\<open>Error('Signer did not return a recoveryParam')\<close>\<close>
  | InvalidSignatureLength nat \<comment> \<open>\<^verbatim>\<open>TypeError('Wrong size for signature. ...')\<close>\<close>
  | NotSupportedRecoverable \<comment> \<open>\<^verbatim>\<open>Error('not_supported: ES256K-R not supported ...')\<close>\<close>
  | UnsupportedAlgorithm string \<comment> \<open>\<^verbatim>\<open>Error('not_supported: Unsupported algorithm ...')\<close>\<close>
  | BadKeyFormat nat \<comment> \<open>\<^verbatim>\<open>Error('bad_key: Invalid private key format. ...')\<close>\<close>
  | RPCError int string \<comment> \<open>\<^verbatim>\<open>new RPCError(code, message)\<close>\<close>
  | RangeError \<comment> \<open>built-in: \<^verbatim>\<open>String.prototype.repeat\<close> with a negative count,
      \<^verbatim>\<open>TypedArray.prototype.set\<close> past the end of the target\<close>
  | SyntaxError \<comment> \<open>a codec of \<^verbatim>\<open>uint8arrays\<close> rejecting its input\<close>
  | TypeError \<comment> \<open>built-in: a method of \<^verbatim>\<open>Object.prototype\<close> called without an object, a call
      of a value that is not a function\<close>
  | ExternalFailure string \<comment> \<open>a failure reported by an external collaborator\<close>

type_synonym byte = "8 word"
type_synonym bytes = "byte list"

section \<open>String utilities\<close>

text \<open>
  \<^verbatim>\<open>String.prototype.split(sep)\<close> for a one-character separator: the result always has
  at least one element, and \<open>n\<close> separators give \<open>n + 1\<close> parts.
\<close>

fun split_on :: "char \<Rightarrow> string \<Rightarrow> string list" where
  "split_on c [] = [[]]"
| "split_on c (x # xs) =
     (if x = c then [] # split_on c xs
      else (case split_on c xs of p # ps \<Rightarrow> (x # p) # ps | [] \<Rightarrow> [[x]]))"

text \<open>Array destructuring and indexing past the end give \<^verbatim>\<open>undefined\<close>, here \<open>None\<close>.\<close>

definition nth_opt :: "'a list \<Rightarrow> nat \<Rightarrow> 'a option" where
  "nth_opt xs i = (if i < length xs then Some (xs ! i) else None)"

text \<open>
  \<^verbatim>\<open>
  export function leftpad(data: string, size = 64): string {
    if (data.length === size) return data
    return '0'.repeat(size - data.length) + data
  }
  \<close>
  \<^verbatim>\<open>'0'.repeat(n)\<close> throws a RangeError for negative \<open>n\<close>.
\<close>

definition repeat_str :: "string \<Rightarrow> int \<Rightarrow> error + string" where
  "repeat_str s n = (if n < 0 then Inl RangeError else Inr (concat (replicate (nat n) s)))"

definition leftpad :: "string \<Rightarrow> nat \<Rightarrow> error + string" where
  "leftpad data sz =
     (if length data = sz then Inr data
      else (case repeat_str ''0'' (int sz - int (length data)) of
              Inl e \<Rightarrow> Inl e
            | Inr z \<Rightarrow> Inr (z @ data)))"

section \<open>Typed arrays\<close>

text \<open>
  A \<^verbatim>\<open>Uint8Array\<close> is a list of bytes. \<^verbatim>\<open>new Uint8Array(n)\<close> is zero-filled;
  \<^verbatim>\<open>target.set(src, offset)\<close> throws a RangeError when \<open>src\<close> does not fit and
  otherwise overwrites in place; an indexed store outside the array is ignored;
  \<^verbatim>\<open>slice(a, b)\<close> clamps to the array.
\<close>

definition u8_new :: "nat \<Rightarrow> bytes" where
  "u8_new n = replicate n 0"

definition u8_set :: "bytes \<Rightarrow> bytes \<Rightarrow> nat \<Rightarrow> error + bytes" where
  "u8_set target src offset =
     (if offset + length src > length target then Inl RangeError
      else Inr (take offset target @ src @ drop (offset + length src) target))"

definition u8_store :: "bytes \<Rightarrow> nat \<Rightarrow> byte \<Rightarrow> bytes" where
  "u8_store target i v = (if i < length target then target[i := v] else target)"

definition u8_slice :: "bytes \<Rightarrow> nat \<Rightarrow> nat \<Rightarrow> bytes" where
  "u8_slice b from to = take (to - from) (drop from b)"

section \<open>Codecs of the uint8arrays library\<close>

fun index_of :: "'a list \<Rightarrow> 'a \<Rightarrow> nat option" where
  "index_of [] c = None"
| "index_of (x # xs) c = (if x = c then Some 0 else map_option Suc (index_of xs c))"

subsection \<open>base16\<close>

text \<open>
  Modelled from the spec: \<^verbatim>\<open>u8a.toString(b, 'base16')\<close> and
  \<^verbatim>\<open>u8a.fromString(s, 'base16')\<close> of the external \<^verbatim>\<open>uint8arrays\<close> package, which is
  not under \<^verbatim>\<open>src/\<close>. Section 4.1: "\<^verbatim>\<open>bytesToHex(bytes) -> hex string\<close>;
  \<^verbatim>\<open>hexToBytes\<close>: lowercase, even-length hex only". Two digits per byte, high nibble
  first; any other character and an odd length are rejected.
\<close>

definition hex_alphabet :: string where
  "hex_alphabet = ''0123456789abcdef''"

definition hex_digit :: "nat \<Rightarrow> char" where
  "hex_digit n = hex_alphabet ! n"

definition hex_val :: "char \<Rightarrow> nat option" where
  "hex_val c = index_of hex_alphabet c"

fun toString_base16 :: "bytes \<Rightarrow> string" where
  "toString_base16 [] = []"
| "toString_base16 (b # bs) =
     hex_digit (unat b div 16) # hex_digit (unat b mod 16) # toString_base16 bs"

fun fromString_base16 :: "string \<Rightarrow> error + bytes" where
  "fromString_base16 [] = Inr []"
| "fromString_base16 [c] = Inl SyntaxError"
| "fromString_base16 (c # d # cs) =
     (case (hex_val c, hex_val d) of
        (Some h, Some l) \<Rightarrow>
          (case fromString_base16 cs of
             Inl e \<Rightarrow> Inl e
           | Inr bs \<Rightarrow> Inr (of_nat (h * 16 + l) # bs))
      | _ \<Rightarrow> Inl SyntaxError)"

subsection \<open>base64url\<close>

text \<open>
  Modelled from the spec: \<^verbatim>\<open>u8a.toString(b, 'base64url')\<close> and
  \<^verbatim>\<open>u8a.fromString(s, 'base64url')\<close> of the external \<^verbatim>\<open>uint8arrays\<close> package.
  Section 4.1: "standard base64url, no padding on output". Three bytes give four
  characters; a last group of one or two bytes gives two or three characters, its unused
  low bits zero. The decoder rejects a character outside the alphabet, a dangling single
  character and non-zero unused bits.
\<close>

definition b64_alphabet :: string where
  "b64_alphabet = ''ABCDEFGHIJKLMNOPQRSTUVWXYZabcdefghijklmnopqrstuvwxyz0123456789-_''"

definition b64_digit :: "nat \<Rightarrow> char" where
  "b64_digit n = b64_alphabet ! n"

definition b64_val :: "char \<Rightarrow> nat option" where
  "b64_val c = index_of b64_alphabet c"

fun b64_encode :: "nat list \<Rightarrow> nat list" where
  "b64_encode [] = []"
| "b64_encode [a] = [a div 4, (a mod 4) * 16]"
| "b64_encode [a, b] = [a div 4, (a mod 4) * 16 + b div 16, (b mod 16) * 4]"
| "b64_encode (a # b # c # bs) =
     (a div 4) # ((a mod 4) * 16 + b div 16) # ((b mod 16) * 4 + c div 64) # (c mod 64)
       # b64_encode bs"

definition toString_base64url :: "bytes \<Rightarrow> string" where
  "toString_base64url b = map b64_digit (b64_encode (map unat b))"

fun b64_decode :: "nat list \<Rightarrow> error + nat list" where
  "b64_decode [] = Inr []"
| "b64_decode [p] = Inl SyntaxError"
| "b64_decode [p, q] =
     (if q mod 16 = 0 then Inr [p * 4 + q div 16] else Inl SyntaxError)"
| "b64_decode [p, q, r] =
     (if r mod 4 = 0 then Inr [p * 4 + q div 16, (q mod 16) * 16 + r div 4]
      else Inl SyntaxError)"
| "b64_decode (p # q # r # s # ds) =
     (case b64_decode ds of
        Inl e \<Rightarrow> Inl e
      | Inr bs \<Rightarrow>
          Inr ((p * 4 + q div 16) # ((q mod 16) * 16 + r div 4) # ((r mod 4) * 64 + s) # bs))"

fun b64_vals :: "string \<Rightarrow> nat list option" where
  "b64_vals [] = Some []"
| "b64_vals (c # cs) =
     (case b64_val c of
        None \<Rightarrow> None
      | Some v \<Rightarrow> map_option ((#) v) (b64_vals cs))"

definition fromString_base64url :: "string \<Rightarrow> error + bytes" where
  "fromString_base64url s =
     (case b64_vals s of
        None \<Rightarrow> Inl SyntaxError
      | Some ds \<Rightarrow>
          (case b64_decode ds of
             Inl e \<Rightarrow> Inl e
           | Inr ns \<Rightarrow> Inr (map of_nat ns)))"

subsection \<open>base58btc\<close>

text \<open>
  Modelled from the spec: \<^verbatim>\<open>u8a.toString(b, 'base58btc')\<close> of the external
  \<^verbatim>\<open>uint8arrays\<close> package. Section 4.1: "\<^verbatim>\<open>base58btcEncode(bytes) -> string\<close>
  (Bitcoin alphabet, no checksum)": one \<^verbatim>\<open>1\<close> for each leading zero byte, then the
  big-endian number written in base 58.
\<close>

definition b58_alphabet :: string where
  "b58_alphabet = ''123456789ABCDEFGHJKLMNPQRSTUVWXYZabcdefghijkmnopqrstuvwxyz''"

definition nat_of_bytes :: "bytes \<Rightarrow> nat" where
  "nat_of_bytes b = foldl (\<lambda>acc x. acc * 256 + unat x) 0 b"

fun b58_digits :: "nat \<Rightarrow> string" where
  "b58_digits n = (if n = 0 then [] else b58_digits (n div 58) @ [b58_alphabet ! (n mod 58)])"

declare b58_digits.simps [simp del]

definition toString_base58btc :: "bytes \<Rightarrow> string" where
  "toString_base58btc b =
     replicate (length (takeWhile (\<lambda>x. x = 0) b)) CHR ''1'' @ b58_digits (nat_of_bytes b)"

section \<open>JOSE signatures\<close>

text \<open>
  \<^verbatim>\<open>recoveryParam?: number | null\<close>: absent, \<^verbatim>\<open>null\<close> or a number. The numbers that
  reach this field (elliptic's recovery parameter, the remote service's \<^verbatim>\<open>recid\<close>, a
  byte read back from a signature) are integers.
\<close>

datatype recovery = Undefined | Null | Num int

record EcdsaSignature =
  ecdsa_r :: string
  ecdsa_s :: string
  ecdsa_recoveryParam :: recovery

text \<open>A store into a \<^verbatim>\<open>Uint8Array\<close> converts with ToUint8: \<^verbatim>\<open>null\<close> is 0, a number wraps modulo 256.\<close>

fun to_uint8 :: "recovery \<Rightarrow> byte" where
  "to_uint8 (Num n) = of_int n"
| "to_uint8 Null = 0"
| "to_uint8 Undefined = 0"

definition bytesToBase64url :: "bytes \<Rightarrow> string" where
  "bytesToBase64url b = toString_base64url b"

definition bytesToHex :: "bytes \<Rightarrow> string" where
  "bytesToHex b = toString_base16 b"

text \<open>
  \<^verbatim>\<open>
  export function base64ToBytes(s: string): Uint8Array {
    const inputBase64Url = s.replace(/\+/g, '-').replace(/\//g, '_').replace(/=/g, '')
    return u8a.fromString(inputBase64Url, 'base64url')
  }
  \<close>
\<close>

definition replace_char :: "char \<Rightarrow> char \<Rightarrow> string \<Rightarrow> string" where
  "replace_char a b s = map (\<lambda>c. if c = a then b else c) s"

definition base64ToBytes :: "string \<Rightarrow> error + bytes" where
  "base64ToBytes s =
     (let inputBase64Url =
            filter (\<lambda>c. c \<noteq> CHR ''='')
              (replace_char CHR ''/'' CHR ''_'' (replace_char CHR ''+'' CHR ''-'' s))
      in fromString_base64url inputBase64Url)"

text \<open>
  \<^verbatim>\<open>
  export function toJose({ r, s, recoveryParam }: EcdsaSignature, recoverable?: boolean): string {
    const jose = new Uint8Array(recoverable ? 65 : 64)
    jose.set(u8a.fromString(r, 'base16'), 0)
    jose.set(u8a.fromString(s, 'base16'), 32)
    if (recoverable) {
      if (typeof recoveryParam === 'undefined') {
        throw new Error('Signer did not return a recoveryParam')
      }
      jose[64] = <number>recoveryParam
    }
    return bytesToBase64url(jose)
  }
  \<close>
  \<open>toJose_bytes\<close> is the array \<^verbatim>\<open>jose\<close> at the \<^verbatim>\<open>return\<close>.
\<close>

definition toJose_bytes :: "EcdsaSignature \<Rightarrow> bool \<Rightarrow> error + bytes" where
  "toJose_bytes sg recoverable =
     (let jose = u8_new (if recoverable then 65 else 64) in
      (case fromString_base16 (ecdsa_r sg) of Inl e \<Rightarrow> Inl e | Inr rb \<Rightarrow>
      (case u8_set jose rb 0 of Inl e \<Rightarrow> Inl e | Inr jose1 \<Rightarrow>
      (case fromString_base16 (ecdsa_s sg) of Inl e \<Rightarrow> Inl e | Inr sb \<Rightarrow>
      (case u8_set jose1 sb 32 of Inl e \<Rightarrow> Inl e | Inr jose2 \<Rightarrow>
         (if recoverable then
            (if ecdsa_recoveryParam sg = Undefined then Inl MissingRecoveryParam
             else Inr (u8_store jose2 64 (to_uint8 (ecdsa_recoveryParam sg))))
          else Inr jose2))))))"

definition toJose :: "EcdsaSignature \<Rightarrow> bool \<Rightarrow> error + string" where
  "toJose sg recoverable =
     (case toJose_bytes sg recoverable of
        Inl e \<Rightarrow> Inl e
      | Inr jose \<Rightarrow> Inr (bytesToBase64url jose))"

text \<open>
  \<^verbatim>\<open>
  export function fromJose(signature: string): { r: string; s: string; recoveryParam?: number } {
    const signatureBytes: Uint8Array = base64ToBytes(signature)
    if (signatureBytes.length < 64 || signatureBytes.length > 65) {
      throw new TypeError(`Wrong size for signature. Expected 64 or 65 bytes, but got ...`)
    }
    const r = bytesToHex(signatureBytes.slice(0, 32))
    const s = bytesToHex(signatureBytes.slice(32, 64))
    const recoveryParam = signatureBytes.length === 65 ? signatureBytes[64] : undefined
    return { r, s, recoveryParam }
  }
  \<close>
\<close>

definition fromJose :: "string \<Rightarrow> error + EcdsaSignature" where
  "fromJose signature =
     (case base64ToBytes signature of
        Inl e \<Rightarrow> Inl e
      | Inr signatureBytes \<Rightarrow>
          if length signatureBytes < 64 \<or> length signatureBytes > 65
          then Inl (InvalidSignatureLength (length signatureBytes))
          else Inr \<lparr>ecdsa_r = bytesToHex (u8_slice signatureBytes 0 32),
                    ecdsa_s = bytesToHex (u8_slice signatureBytes 32 64),
                    ecdsa_recoveryParam =
                      (if length signatureBytes = 65 then Num (uint (signatureBytes ! 64))
                       else Undefined)\<rparr>)"

text \<open>
  The data model's "32-byte big-endian unsigned integer as hex": 64 characters of the
  lowercase base16 alphabet.
\<close>

definition is_hex64 :: "string \<Rightarrow> bool" where
  "is_hex64 s \<longleftrightarrow> length s = 64 \<and> list_all (\<lambda>c. c \<in> set hex_alphabet) s"

section \<open>General JWS\<close>

text \<open>
  \<^verbatim>\<open>
  function toGeneralJWS(jws: string): GeneralJWS {
    const [protectedHeader, payload, signature] = jws.split('.')
    return {
      payload,
      signatures: [{ protected: protectedHeader, signature }],
    }
  }
  \<close>
  The destructured names are \<^verbatim>\<open>undefined\<close> when the split has fewer than three parts,
  so the fields are options. There is no \<^verbatim>\<open>throw\<close> in the function.
\<close>

record JWSSignature =
  jsig_protected :: "string option"
  jsig_signature :: "string option"

record GeneralJWS =
  jws_payload :: "string option"
  jws_signatures :: "JWSSignature list"

definition toGeneralJWS :: "string \<Rightarrow> error + GeneralJWS" where
  "toGeneralJWS jws =
     (let parts = split_on CHR ''.'' jws;
          protectedHeader = nth_opt parts 0;
          payload = nth_opt parts 1;
          signature = nth_opt parts 2
      in Inr \<lparr>jws_payload = payload,
              jws_signatures = [\<lparr>jsig_protected = protectedHeader, jsig_signature = signature\<rparr>]\<rparr>)"

section \<open>DID derivation\<close>

text \<open>
  \<^verbatim>\<open>
  export function encodeDID(publicKey: Uint8Array): string {
    const bytes = new Uint8Array(publicKey.length + 2)
    bytes[0] = 0xe7 // secp256k1 multicodec
    // The multicodec is encoded as a varint so we need to add this.
    // See js-multicodec for a general implementation
    bytes[1] = 0x01
    bytes.set(publicKey, 2)
    return `did:key:z${u8a.toString(bytes, 'base58btc')}`
  }
  \<close>
\<close>

definition encodeDID :: "bytes \<Rightarrow> error + string" where
  "encodeDID publicKey =
     (let bytes0 = u8_new (length publicKey + 2);
          bytes1 = u8_store bytes0 0 0xe7;
          bytes2 = u8_store bytes1 1 0x01
      in case u8_set bytes2 publicKey 2 of
           Inl e \<Rightarrow> Inl e
         | Inr bytes3 \<Rightarrow> Inr (''did:key:z'' @ toString_base58btc bytes3))"

text \<open>
  The pattern \<^verbatim>\<open>^did:key:z[1-9A-HJ-NP-Za-km-z]+$\<close>: the character class by character
  codes, and the match as prefix, non-empty rest, every character of the rest in the class.
\<close>

definition b58_class :: "char \<Rightarrow> bool" where
  "b58_class c =
     (let n = (of_char c :: nat) in
        (49 \<le> n \<and> n \<le> 57) \<or> (65 \<le> n \<and> n \<le> 72) \<or> (74 \<le> n \<and> n \<le> 78)
      \<or> (80 \<le> n \<and> n \<le> 90) \<or> (97 \<le> n \<and> n \<le> 107) \<or> (109 \<le> n \<and> n \<le> 122))"

definition matches_did_key :: "string \<Rightarrow> bool" where
  "matches_did_key s \<longleftrightarrow>
     take 9 s = ''did:key:z'' \<and> drop 9 s \<noteq> [] \<and> list_all b58_class (drop 9 s)"

section \<open>Signers\<close>

text \<open>
  \<^verbatim>\<open>export type Signer = (data: string | Uint8Array) => Promise<EcdsaSignature | string>\<close>
\<close>

datatype sign_data = DStr string | DBytes bytes

datatype signer_output = Structured EcdsaSignature | PreEncoded string

type_synonym Signer = "sign_data \<Rightarrow> error + signer_output"

text \<open>
  \<^verbatim>\<open>u8a.fromString(s)\<close> with the default encoding, UTF-8. A \<open>char\<close> of this model is a
  code unit below 256, so a character takes one byte below 128 and two bytes from 128 on.
\<close>

definition utf8_encode :: "string \<Rightarrow> bytes" where
  "utf8_encode s =
     concat (map (\<lambda>c. let n = (of_char c :: nat) in
                        if n < 128 then [of_nat n]
                        else [of_nat (192 + n div 64), of_nat (128 + n mod 64)]) s)"

text \<open>
  The external collaborators of the local signer, taken as parameters: the SHA-256
  primitive \<^verbatim>\<open>hash\<close> of \<^verbatim>\<open>@stablelib/sha256\<close>, and \<^verbatim>\<open>ec.keyFromPrivate(key).sign(h)\<close>
  of \<^verbatim>\<open>elliptic\<close>, which returns the big numbers \<open>r\<close> and \<open>s\<close> and a recovery
  parameter.
\<close>

record elliptic_signature =
  ec_r :: nat
  ec_s :: nat
  ec_recoveryParam :: recovery

record crypto =
  stablelib_hash :: "bytes \<Rightarrow> bytes"
  keyPair_sign :: "bytes \<Rightarrow> bytes \<Rightarrow> elliptic_signature"

text \<open>
  \<^verbatim>\<open>
  export function sha256(payload: string | Uint8Array): Uint8Array {
    const data = typeof payload === 'string' ? u8a.fromString(payload) : payload
    return hash(data)
  }
  \<close>
\<close>

definition sha256 :: "crypto \<Rightarrow> sign_data \<Rightarrow> bytes" where
  "sha256 cr payload =
     (let data = (case payload of DStr s \<Rightarrow> utf8_encode s | DBytes b \<Rightarrow> b)
      in stablelib_hash cr data)"

text \<open>
  \<^verbatim>\<open>r.toString('hex')\<close> of a \<^verbatim>\<open>bn.js\<close> number: lowercase digits, no leading zero, and
  \<^verbatim>\<open>0\<close> for zero.
\<close>

fun bn_toString_hex :: "nat \<Rightarrow> string" where
  "bn_toString_hex n =
     (if n < 16 then [hex_digit n] else bn_toString_hex (n div 16) @ [hex_digit (n mod 16)])"

declare bn_toString_hex.simps [simp del]

text \<open>The number a lowercase hex string denotes, for stating what the padding preserves.\<close>

abbreviation hex_step :: "nat \<Rightarrow> char \<Rightarrow> nat" where
  "hex_step \<equiv> (\<lambda>acc c. acc * 16 + (case hex_val c of Some v \<Rightarrow> v | None \<Rightarrow> 0))"

definition nat_of_hex :: "string \<Rightarrow> nat" where
  "nat_of_hex s = foldl hex_step 0 s"

text \<open>
  \<^verbatim>\<open>
  export function ES256KSigner(privateKey: Uint8Array, recoverable = false): Signer {
    const privateKeyBytes: Uint8Array = privateKey
    if (privateKeyBytes.length !== 32) {
      throw new Error(`bad_key: Invalid private key format. Expecting 32 bytes, but got ...`)
    }
    const keyPair: elliptic.ec.KeyPair = ec.keyFromPrivate(privateKeyBytes)
    return async (data: string | Uint8Array): Promise<string> => {
      const { r, s, recoveryParam }: elliptic.ec.Signature = keyPair.sign(sha256(data))
      return toJose(
        { r: leftpad(r.toString('hex')), s: leftpad(s.toString('hex')), recoveryParam },
        recoverable
      )
    }
  }
  \<close>
  \<open>ES256KSigner_sign\<close> is the returned closure.
\<close>

definition ES256KSigner_sign :: "crypto \<Rightarrow> bytes \<Rightarrow> bool \<Rightarrow> Signer" where
  "ES256KSigner_sign cr privateKeyBytes recoverable data =
     (let sg = keyPair_sign cr privateKeyBytes (sha256 cr data) in
      (case leftpad (bn_toString_hex (ec_r sg)) 64 of Inl e \<Rightarrow> Inl e | Inr r \<Rightarrow>
      (case leftpad (bn_toString_hex (ec_s sg)) 64 of Inl e \<Rightarrow> Inl e | Inr s \<Rightarrow>
      (case toJose \<lparr>ecdsa_r = r, ecdsa_s = s, ecdsa_recoveryParam = ec_recoveryParam sg\<rparr>
              recoverable of
         Inl e \<Rightarrow> Inl e
       | Inr jose \<Rightarrow> Inr (PreEncoded jose)))))"

definition ES256KSigner :: "crypto \<Rightarrow> bytes \<Rightarrow> bool \<Rightarrow> error + Signer" where
  "ES256KSigner cr privateKey recoverable =
     (let privateKeyBytes = privateKey in
      if length privateKeyBytes \<noteq> 32 then Inl (BadKeyFormat (length privateKeyBytes))
      else Inr (ES256KSigner_sign cr privateKeyBytes recoverable))"

text \<open>
  The remote signing service, taken as a parameter: \<^verbatim>\<open>litActionSignAndGetSignature\<close>
  connects to the Lit network and returns the signatures of the action; its \<^verbatim>\<open>sig1\<close> is
  a \<^verbatim>\<open>LitActionSignature { r: string, s: string, recid: number }\<close>. A failure of the
  network call is an \<open>Inl\<close>.
\<close>

record LitActionSignature =
  lit_r :: string
  lit_s :: string
  lit_recid :: int

type_synonym lit_service = "bytes \<Rightarrow> error + LitActionSignature"

text \<open>
  \<^verbatim>\<open>
  export function ES256KSignerWithLit(): Signer {
    const recoverable = false;
    return async (data: string | Uint8Array): Promise<string> => {
      const singature = (await litActionSignAndGetSignature(sha256(data))).sig1;
      return toJose(
        { r: singature.r, s: singature.s, recoveryParam: singature.recid },
        recoverable
      )
    }
  }
  \<close>
\<close>

definition ES256KSignerWithLit :: "crypto \<Rightarrow> lit_service \<Rightarrow> Signer" where
  "ES256KSignerWithLit cr litActionSignAndGetSignature data =
     (let recoverable = False in
      (case litActionSignAndGetSignature (sha256 cr data) of Inl e \<Rightarrow> Inl e | Inr singature \<Rightarrow>
      (case toJose \<lparr>ecdsa_r = lit_r singature, ecdsa_s = lit_s singature,
                    ecdsa_recoveryParam = Num (lit_recid singature)\<rparr> recoverable of
         Inl e \<Rightarrow> Inl e
       | Inr jose \<Rightarrow> Inr (PreEncoded jose))))"

text \<open>
  Stand-ins for the collaborators, for evaluating the signers at concrete inputs: a hash
  that returns its input, a curve signature with fixed components, and a remote service
  that answers with short, unpadded components.
\<close>

definition fixed_crypto :: crypto where
  "fixed_crypto =
     \<lparr>stablelib_hash = (\<lambda>data. data),
      keyPair_sign = (\<lambda>key h. \<lparr>ec_r = 1, ec_s = 258, ec_recoveryParam = Num 1\<rparr>)\<rparr>"

definition fixed_lit :: lit_service where
  "fixed_lit h = Inr \<lparr>lit_r = ''01'', lit_s = ''0102'', lit_recid = 1\<rparr>"

definition key32 :: bytes where
  "key32 = replicate 32 1"

section \<open>JSON values and objects\<close>

text \<open>
  The headers and payloads are JSON data. An object is the list of its properties, with
  distinct keys, in the order they were added. A number is an integer, as the claims
  fields (\<^verbatim>\<open>exp\<close>, \<^verbatim>\<open>iat\<close>) are.
\<close>

datatype json =
    JNull
  | JBool bool
  | JNum int
  | JStr string
  | JArr "json list"
  | JObj "(string \<times> json) list"

type_synonym js_object = "(string \<times> json) list"

text \<open>Reading a property (\<^verbatim>\<open>undefined\<close> is \<open>None\<close>) and assigning one.\<close>

definition obj_get :: "js_object \<Rightarrow> string \<Rightarrow> json option" where
  "obj_get obj k = map_of obj k"

fun obj_set :: "js_object \<Rightarrow> string \<Rightarrow> json \<Rightarrow> js_object" where
  "obj_set [] k v = [(k, v)]"
| "obj_set ((k', v') # kvs) k v =
     (if k' = k then (k, v) # kvs else (k', v') # obj_set kvs k v)"


text \<open>The operand of \<^verbatim>\<open>!\<close>: which values are falsy.\<close>

fun js_falsy :: "json option \<Rightarrow> bool" where
  "js_falsy None = True"
| "js_falsy (Some JNull) = True"
| "js_falsy (Some (JBool b)) = (\<not> b)"
| "js_falsy (Some (JNum n)) = (n = 0)"
| "js_falsy (Some (JStr s)) = (s = [])"
| "js_falsy (Some (JArr xs)) = False"
| "js_falsy (Some (JObj kvs)) = False"

text \<open>\<^verbatim>\<open>Array.prototype.join(sep)\<close> on strings.\<close>

fun join_with :: "string \<Rightarrow> string list \<Rightarrow> string" where
  "join_with sep [] = []"
| "join_with sep [x] = x"
| "join_with sep (x # y # ys) = x @ sep @ join_with sep (y # ys)"

text \<open>An integer in decimal, as \<^verbatim>\<open>String(n)\<close> and \<^verbatim>\<open>JSON.stringify(n)\<close> print it.\<close>

fun dec_digits :: "nat \<Rightarrow> string" where
  "dec_digits n =
     (if n < 10 then [char_of (48 + n)] else dec_digits (n div 10) @ [char_of (48 + n mod 10)])"

declare dec_digits.simps [simp del]

definition int_to_string :: "int \<Rightarrow> string" where
  "int_to_string i = (if i < 0 then CHR ''-'' # dec_digits (nat (- i)) else dec_digits (nat i))"

text \<open>
  The own keys of an object enumerate in the order of ECMAScript's OrdinaryOwnPropertyKeys:
  first the keys that are array indices, in ascending numeric order, then the other keys
  in the order they were added. A key is an array index when it is the decimal text of a
  number below \<open>2 ^ 32 - 1\<close>, that is, digits only and printed back unchanged.
\<close>

definition index_value :: "string \<Rightarrow> int" where
  "index_value k = foldl (\<lambda>acc c. acc * 10 + (of_char c - 48)) 0 k"

definition is_array_index :: "string \<Rightarrow> bool" where
  "is_array_index k \<longleftrightarrow>
     k \<noteq> [] \<and> list_all (\<lambda>c. CHR ''0'' \<le> c \<and> c \<le> CHR ''9'') k
     \<and> int_to_string (index_value k) = k \<and> index_value k < 4294967295"

definition js_enumerate :: "(string \<times> 'a) list \<Rightarrow> (string \<times> 'a) list" where
  "js_enumerate kvs =
     sort_key (\<lambda>p. index_value (fst p)) (filter (\<lambda>p. is_array_index (fst p)) kvs)
       @ filter (\<lambda>p. \<not> is_array_index (fst p)) kvs"

text \<open>
  \<^verbatim>\<open>JSON.stringify\<close>. A string is quoted with the escapes of ECMAScript's QuoteJSONString:
  the quotation mark and the backslash get a backslash, the control characters their
  short form or the four-digit \<^verbatim>\<open>u\<close> form. The members of an object are printed in the
  order its keys enumerate. A number is printed in full decimal, which is what the code
  prints for a safe integer (below \<open>2 ^ 53\<close> in absolute value); \<open>json_safe\<close> says that
  every number of a value is one.
\<close>

definition json_escape :: "char \<Rightarrow> string" where
  "json_escape c =
     (let n = (of_char c :: nat) in
      if n = 0x22 then [CHR 0x5C, CHR 0x22]
      else if n = 0x5C then [CHR 0x5C, CHR 0x5C]
      else if n = 0x08 then [CHR 0x5C, CHR ''b'']
      else if n = 0x09 then [CHR 0x5C, CHR ''t'']
      else if n = 0x0A then [CHR 0x5C, CHR ''n'']
      else if n = 0x0C then [CHR 0x5C, CHR ''f'']
      else if n = 0x0D then [CHR 0x5C, CHR ''r'']
      else if n < 0x20 then
        [CHR 0x5C, CHR ''u'', CHR ''0'', CHR ''0'', hex_digit (n div 16), hex_digit (n mod 16)]
      else [c])"

definition json_quote :: "string \<Rightarrow> string" where
  "json_quote s = [CHR 0x22] @ concat (map json_escape s) @ [CHR 0x22]"

primrec JSON_stringify :: "json \<Rightarrow> string" where
  "JSON_stringify JNull = ''null''"
| "JSON_stringify (JBool b) = (if b then ''true'' else ''false'')"
| "JSON_stringify (JNum n) = int_to_string n"
| "JSON_stringify (JStr s) = json_quote s"
| "JSON_stringify (JArr xs) = ''['' @ join_with '','' (map JSON_stringify xs) @ '']''"
| "JSON_stringify (JObj kvs) =
     ''{'' @ join_with '',''
              (map (\<lambda>(k, v). json_quote k @ '':'' @ v)
                 (js_enumerate (map (map_prod id JSON_stringify) kvs)))
       @ ''}''"



text \<open>
  ToString, which turns a value into a property key and prints it in a template literal:
  an array is its elements joined by commas, \<^verbatim>\<open>null\<close> elements empty.
\<close>

primrec js_to_string :: "json \<Rightarrow> string" where
  "js_to_string JNull = ''null''"
| "js_to_string (JBool b) = (if b then ''true'' else ''false'')"
| "js_to_string (JNum n) = int_to_string n"
| "js_to_string (JStr s) = s"
| "js_to_string (JArr xs) =
     join_with '','' (map (\<lambda>(x, t). if x = JNull then [] else t) (zip xs (map js_to_string xs)))"
| "js_to_string (JObj kvs) = ''[object Object]''"

text \<open>
  Modelled from the spec: \<^verbatim>\<open>stringify\<close> of the external \<^verbatim>\<open>fast-json-stable-stringify\<close>
  package, followed by \<^verbatim>\<open>JSON.parse\<close>. Section 4.1: "deterministic key-sorted JSON
  serialization (object keys sorted lexicographically, recursively; array order
  preserved)". Parsing the sorted text adds the members of every object in sorted order;
  the keys of the parsed object then enumerate as every object's do, array indices first
  in numeric order and the other keys in the sorted order.
\<close>

primrec stable_value :: "json \<Rightarrow> json" where
  "stable_value JNull = JNull"
| "stable_value (JBool b) = JBool b"
| "stable_value (JNum n) = JNum n"
| "stable_value (JStr s) = JStr s"
| "stable_value (JArr xs) = JArr (map stable_value xs)"
| "stable_value (JObj kvs) =
     JObj (js_enumerate (sort_key fst (map (map_prod id stable_value) kvs)))"

text \<open>
  \<^verbatim>\<open>
  function toStableObject(obj: Record<string, any>): Record<string, any> {
    return JSON.parse(stringify(obj)) as Record<string, any>
  }
  \<close>
\<close>

definition toStableObject :: "js_object \<Rightarrow> js_object" where
  "toStableObject obj = js_enumerate (sort_key fst (map (map_prod id stable_value) obj))"

section \<open>Building a JWS\<close>

text \<open>
  \<^verbatim>\<open>
  export function encodeBase64url(s: string): string {
    return bytesToBase64url(u8a.fromString(s))
  }
  function encodeSection(data: any): string {
    return encodeBase64url(JSON.stringify(data))
  }
  \<close>
\<close>

definition encodeBase64url :: "string \<Rightarrow> string" where
  "encodeBase64url s = bytesToBase64url (utf8_encode s)"

definition encodeSection :: "json \<Rightarrow> string" where
  "encodeSection data = encodeBase64url (JSON_stringify data)"

text \<open>
  \<^verbatim>\<open>
  export function ES256KSignerAlg(recoverable?: boolean): SignerAlgorithm {
    return async function sign(payload: string, signer: Signer): Promise<string> {
      const signature: EcdsaSignature | string = await signer(payload)
      if (instanceOfEcdsaSignature(signature)) {
        return toJose(signature, recoverable)
      } else {
        if (recoverable && typeof fromJose(signature).recoveryParam === 'undefined') {
          throw new Error(`not_supported: ES256K-R not supported ...`)
        }
        return signature
      }
    }
  }
  \<close>
\<close>

type_synonym SignerAlgorithm = "string \<Rightarrow> Signer \<Rightarrow> error + string"

definition ES256KSignerAlg :: "bool \<Rightarrow> SignerAlgorithm" where
  "ES256KSignerAlg recoverable payload signer =
     (case signer (DStr payload) of
        Inl e \<Rightarrow> Inl e
      | Inr (Structured signature) \<Rightarrow> toJose signature recoverable
      | Inr (PreEncoded signature) \<Rightarrow>
          (if recoverable then
             (case fromJose signature of
                Inl e \<Rightarrow> Inl e
              | Inr decoded \<Rightarrow>
                  if ecdsa_recoveryParam decoded = Undefined then Inl NotSupportedRecoverable
                  else Inr signature)
           else Inr signature))"

text \<open>
  \<^verbatim>\<open>
  const algorithms: SignerAlgorithms = {
    ES256K: ES256KSignerAlg(),
  }
  function SignerAlg(alg: string): SignerAlgorithm {
    const impl: SignerAlgorithm = algorithms[alg]
    if (!impl) throw new Error(`not_supported: Unsupported algorithm ${alg}`)
    return impl
  }
  \<close>
  \<^verbatim>\<open>algorithms[alg]\<close> reads the table's own key and, for any other name, what the table
  inherits from \<^verbatim>\<open>Object.prototype\<close>. An inherited member is truthy, so it is returned and
  then called as \<^verbatim>\<open>impl(signingInput, signer)\<close> with no \<^verbatim>\<open>this\<close>: \<^verbatim>\<open>constructor\<close> wraps
  its first argument, which joins as the same string; \<^verbatim>\<open>toString\<close> answers for an undefined
  receiver; \<^verbatim>\<open>isPrototypeOf\<close> answers \<^verbatim>\<open>false\<close> for a string; the other methods need an
  object and throw a TypeError, as does the call of \<^verbatim>\<open>__proto__\<close>, which is not a function.
\<close>

definition algorithms :: "string \<rightharpoonup> SignerAlgorithm" where
  "algorithms = [''ES256K'' \<mapsto> ES256KSignerAlg False]"

definition object_prototype :: "string \<rightharpoonup> SignerAlgorithm" where
  "object_prototype = map_of
     [(''constructor'', \<lambda>payload signer. Inr payload),
      (''toString'', \<lambda>payload signer. Inr ''[object Undefined]''),
      (''isPrototypeOf'', \<lambda>payload signer. Inr ''false''),
      (''toLocaleString'', \<lambda>payload signer. Inl TypeError),
      (''valueOf'', \<lambda>payload signer. Inl TypeError),
      (''hasOwnProperty'', \<lambda>payload signer. Inl TypeError),
      (''propertyIsEnumerable'', \<lambda>payload signer. Inl TypeError),
      (''__defineGetter__'', \<lambda>payload signer. Inl TypeError),
      (''__defineSetter__'', \<lambda>payload signer. Inl TypeError),
      (''__lookupGetter__'', \<lambda>payload signer. Inl TypeError),
      (''__lookupSetter__'', \<lambda>payload signer. Inl TypeError),
      (''__proto__'', \<lambda>payload signer. Inl TypeError)]"

definition SignerAlg :: "json option \<Rightarrow> error + SignerAlgorithm" where
  "SignerAlg alg =
     (let name = (case alg of None \<Rightarrow> ''undefined'' | Some v \<Rightarrow> js_to_string v) in
      case algorithms name of
        Some impl \<Rightarrow> Inr impl
      | None \<Rightarrow>
          (case object_prototype name of
             Some impl \<Rightarrow> Inr impl
           | None \<Rightarrow> Inl (UnsupportedAlgorithm name)))"

text \<open>
  \<^verbatim>\<open>
  export async function createJWS(
    payload: string | Partial<JWTPayload>,
    signer: Signer,
    header: Partial<JWTHeader> = {},
  ): Promise<string> {
    if (!header.alg) header.alg = 'ES256K'
    const encodedPayload = typeof payload === 'string' ? payload : encodeSection(payload)
    const signingInput: string = [encodeSection(header), encodedPayload].join('.')
    const jwtSigner: SignerAlgorithm = SignerAlg(header.alg)
    const signature: string = await jwtSigner(signingInput, signer)
    const joined = [signingInput, signature].join('.');
    return joined
  }
  \<close>
\<close>

datatype jws_payload = PayloadString string | PayloadObject js_object

definition encodePayload :: "jws_payload \<Rightarrow> string" where
  "encodePayload payload =
     (case payload of PayloadString s \<Rightarrow> s | PayloadObject obj \<Rightarrow> encodeSection (JObj obj))"

definition createJWS :: "jws_payload \<Rightarrow> Signer \<Rightarrow> js_object \<Rightarrow> error + string" where
  "createJWS payload signer header =
     (let header1 = (if js_falsy (obj_get header ''alg'')
                     then obj_set header ''alg'' (JStr ''ES256K'') else header);
          encodedPayload = encodePayload payload;
          signingInput = join_with ''.'' [encodeSection (JObj header1), encodedPayload]
      in (case SignerAlg (obj_get header1 ''alg'') of Inl e \<Rightarrow> Inl e | Inr jwtSigner \<Rightarrow>
         (case jwtSigner signingInput signer of Inl e \<Rightarrow> Inl e | Inr signature \<Rightarrow>
            Inr (join_with ''.'' [signingInput, signature]))))"

section \<open>The provider's methods\<close>






section \<open>Properties\<close>

subsection \<open>Splitting\<close>

lemma split_on_nonempty: "split_on c xs \<noteq> []"
  by (induction xs) (auto split: list.splits)


lemma split_on_append:
  "c \<notin> set xs \<Longrightarrow> split_on c (xs @ c # ys) = xs # split_on c ys"
  by (induction xs) auto

lemma length_split_on: "length (split_on c xs) = Suc (count_list xs c)"
  by (induction xs) (auto split: list.splits simp: split_on_nonempty)

subsection \<open>Bytes and alphabets\<close>

lemma index_of_Some: "index_of xs c = Some i \<Longrightarrow> i < length xs \<and> xs ! i = c"
  by (induction xs arbitrary: i) (auto split: if_splits)

lemma index_of_nth: "distinct xs \<Longrightarrow> i < length xs \<Longrightarrow> index_of xs (xs ! i) = Some i"
proof (induction xs arbitrary: i)
  case Nil
  then show ?case by simp
next
  case (Cons x xs)
  show ?case
  proof (cases i)
    case 0
    then show ?thesis by simp
  next
    case (Suc j)
    with Cons.prems have "j < length xs" "xs ! j \<noteq> x" by auto
    with Cons.IH Cons.prems Suc show ?thesis by auto
  qed
qed

lemma index_of_mem: "c \<in> set xs \<Longrightarrow> \<exists>i. index_of xs c = Some i"
  by (induction xs) auto

lemma index_of_None: "c \<notin> set xs \<Longrightarrow> index_of xs c = None"
  by (induction xs) auto

lemma unat_byte_less: "unat (x :: byte) < 256"
proof -
  have "unat x < 2 ^ LENGTH(8)" by (rule unsigned_less)
  then show ?thesis by simp
qed

lemma unat_of_nat_byte: "n < 256 \<Longrightarrow> unat (of_nat n :: byte) = n"
  by (rule of_nat_inverse [OF refl]) simp

lemma hex_alphabet_props: "distinct hex_alphabet" "length hex_alphabet = 16"
  by (simp_all add: hex_alphabet_def)

lemma hex_val_digit: "n < 16 \<Longrightarrow> hex_val (hex_digit n) = Some n"
  by (simp add: hex_val_def hex_digit_def index_of_nth hex_alphabet_props)

lemma hex_val_Some: "hex_val c = Some n \<Longrightarrow> n < 16 \<and> hex_digit n = c"
  using index_of_Some [of hex_alphabet c n]
  by (simp add: hex_val_def hex_digit_def hex_alphabet_props)

lemma fromString_toString_base16: "fromString_base16 (toString_base16 b) = Inr b"
proof (induction b)
  case Nil
  then show ?case by simp
next
  case (Cons x b)
  have "unat x div 16 < 16" using unat_byte_less [of x] by simp
  moreover have "unat x mod 16 < 16" by simp
  moreover have "(of_nat (unat x div 16 * 16 + unat x mod 16) :: byte) = x" by simp
  ultimately show ?case using Cons by (simp add: hex_val_digit)
qed

lemma toString_fromString_base16:
  "fromString_base16 s = Inr b \<Longrightarrow> toString_base16 b = s"
proof (induction s arbitrary: b rule: fromString_base16.induct)
  case 1
  then show ?case by simp
next
  case (2 c)
  then show ?case by simp
next
  case (3 c d cs)
  from "3.prems" obtain h l bs where
    h: "hex_val c = Some h" and l: "hex_val d = Some l"
    and bs: "fromString_base16 cs = Inr bs" and b: "b = of_nat (h * 16 + l) # bs"
    by (auto split: option.splits sum.splits)
  from h l have hl: "h < 16" "l < 16" "hex_digit h = c" "hex_digit l = d"
    by (auto dest: hex_val_Some)
  then have "unat (of_nat (h * 16 + l) :: byte) = h * 16 + l"
    by (intro unat_of_nat_byte) simp
  with hl have "unat (of_nat (h * 16 + l) :: byte) div 16 = h"
    "unat (of_nat (h * 16 + l) :: byte) mod 16 = l" by simp_all
  with "3.IH" [OF _ _ _ bs] h l hl b show ?case by simp
qed

lemma length_fromString_base16:
  "fromString_base16 s = Inr b \<Longrightarrow> length s = 2 * length b"
  by (induction s arbitrary: b rule: fromString_base16.induct)
     (auto split: option.splits sum.splits)

subsection \<open>base64url round trip\<close>

lemma b64_alphabet_props: "distinct b64_alphabet" "length b64_alphabet = 64"
  by (simp_all add: b64_alphabet_def)

lemma b64_val_digit: "n < 64 \<Longrightarrow> b64_val (b64_digit n) = Some n"
  by (simp add: b64_val_def b64_digit_def index_of_nth b64_alphabet_props)

lemma b64_digit_mem: "n < 64 \<Longrightarrow> b64_digit n \<in> set b64_alphabet"
  by (simp add: b64_digit_def b64_alphabet_props)

lemma b64_encode_bound:
  "\<forall>n \<in> set ns. n < 256 \<Longrightarrow> \<forall>d \<in> set (b64_encode ns). d < 64"
proof (induction ns rule: b64_encode.induct)
  case 1
  then show ?case by simp
next
  case (2 a)
  then show ?case by (auto simp: less_mult_imp_div_less)
next
  case (3 a b)
  then have "a div 4 < 64" "b div 16 < 16" "a mod 4 < 4" "b mod 16 < 16" by auto
  then show ?case by auto
next
  case (4 a b c bs)
  then have "a div 4 < 64" "b div 16 < 16" "a mod 4 < 4" "b mod 16 < 16" "c div 64 < 4" by auto
  moreover from 4 have "\<forall>d \<in> set (b64_encode bs). d < 64" by simp
  ultimately show ?case by auto
qed

lemma b64_decode_encode:
  "\<forall>n \<in> set ns. n < 256 \<Longrightarrow> b64_decode (b64_encode ns) = Inr ns"
proof (induction ns rule: b64_encode.induct)
  case 1
  then show ?case by simp
next
  case (2 a)
  then show ?case by simp
next
  case (3 a b)
  then have "b div 16 < 16" by auto
  then show ?case by simp
next
  case (4 a b c bs)
  then have "b div 16 < 16" "c div 64 < 4" by auto
  moreover from 4 have "b64_decode (b64_encode bs) = Inr bs" by simp
  ultimately show ?case by simp
qed

lemma b64_vals_digits:
  "\<forall>d \<in> set ds. d < 64 \<Longrightarrow> b64_vals (map b64_digit ds) = Some ds"
  by (induction ds) (simp_all add: b64_val_digit)

lemma unat_bytes_bound: "\<forall>n \<in> set (map unat (b :: bytes)). n < 256"
  by (simp add: unat_byte_less)

lemma fromString_toString_base64url:
  "fromString_base64url (toString_base64url b) = Inr b"
proof -
  have "b64_vals (map b64_digit (b64_encode (map unat b))) = Some (b64_encode (map unat b))"
    by (rule b64_vals_digits) (rule b64_encode_bound, rule unat_bytes_bound)
  moreover have "b64_decode (b64_encode (map unat b)) = Inr (map unat b)"
    by (rule b64_decode_encode) (rule unat_bytes_bound)
  moreover have "map of_nat (map unat b) = b"
    by (induction b) simp_all
  ultimately show ?thesis
    by (simp add: fromString_base64url_def toString_base64url_def)
qed

lemma set_toString_base64url: "set (toString_base64url b) \<subseteq> set b64_alphabet"
  using b64_encode_bound [OF unat_bytes_bound, of b]
  by (auto simp: toString_base64url_def b64_digit_mem)

lemma b64_alphabet_excludes:
  "CHR ''.'' \<notin> set b64_alphabet" "CHR ''+'' \<notin> set b64_alphabet"
  "CHR ''/'' \<notin> set b64_alphabet" "CHR ''='' \<notin> set b64_alphabet"
  by (simp_all add: b64_alphabet_def)

lemma replace_char_id: "a \<notin> set s \<Longrightarrow> replace_char a b s = s"
  by (induction s) (auto simp: replace_char_def)

lemma base64ToBytes_bytesToBase64url: "base64ToBytes (bytesToBase64url b) = Inr b"
proof -
  let ?s = "toString_base64url b"
  have "CHR ''+'' \<notin> set ?s" "CHR ''/'' \<notin> set ?s" "CHR ''='' \<notin> set ?s"
    using set_toString_base64url [of b] b64_alphabet_excludes by auto
  then have "filter (\<lambda>c. c \<noteq> CHR ''='')
      (replace_char CHR ''/'' CHR ''_'' (replace_char CHR ''+'' CHR ''-'' ?s)) = ?s"
    by (auto simp: replace_char_id filter_id_conv)
  then show ?thesis
    by (simp add: base64ToBytes_def bytesToBase64url_def fromString_toString_base64url)
qed

lemma bytesToBase64url_no_dot: "CHR ''.'' \<notin> set (bytesToBase64url b)"
  using set_toString_base64url [of b] b64_alphabet_excludes
  by (auto simp: bytesToBase64url_def)

subsection \<open>JOSE encoding of fixed-width signatures\<close>

lemma hex_val_mem: "c \<in> set hex_alphabet \<Longrightarrow> \<exists>n. hex_val c = Some n"
  by (simp add: hex_val_def index_of_mem)

lemma fromString_base16_total:
  "list_all (\<lambda>c. c \<in> set hex_alphabet) s \<Longrightarrow> even (length s) \<Longrightarrow>
   \<exists>b. fromString_base16 s = Inr b"
proof (induction s rule: fromString_base16.induct)
  case 1
  then show ?case by simp
next
  case (2 c)
  then show ?case by simp
next
  case (3 c d cs)
  from "3.prems" obtain h l where hl: "hex_val c = Some h" "hex_val d = Some l"
    using hex_val_mem [of c] hex_val_mem [of d] by auto
  from "3.prems" have "list_all (\<lambda>c. c \<in> set hex_alphabet) cs" "even (length cs)" by simp_all
  with "3.IH" [OF refl hl(1) hl(2)] obtain b where "fromString_base16 cs = Inr b"
    by auto
  with hl show ?case by simp
qed

lemma is_hex64_decodes:
  assumes "is_hex64 s"
  obtains b where "fromString_base16 s = Inr b" "length b = 32"
proof -
  from assms have "list_all (\<lambda>c. c \<in> set hex_alphabet) s" "even (length s)" "length s = 64"
    by (simp_all add: is_hex64_def)
  then obtain b where b: "fromString_base16 s = Inr b"
    using fromString_base16_total by blast
  with \<open>length s = 64\<close> have "length b = 32"
    by (auto dest: length_fromString_base16)
  with b show ?thesis by (rule that)
qed

lemma toJose_bytes_fixed_width:
  assumes "fromString_base16 (ecdsa_r sg) = Inr rb" "length rb = 32"
    and "fromString_base16 (ecdsa_s sg) = Inr sb" "length sb = 32"
  shows "toJose_bytes sg recoverable =
     (if recoverable then
        (if ecdsa_recoveryParam sg = Undefined then Inl MissingRecoveryParam
         else Inr (rb @ sb @ [to_uint8 (ecdsa_recoveryParam sg)]))
      else Inr (rb @ sb))"
proof -
  have set_r: "u8_set (u8_new n) rb 0 = Inr (rb @ replicate (n - 32) 0)" if "64 \<le> n" for n
    using that assms(2) by (simp add: u8_set_def u8_new_def)
  have set_s: "u8_set (rb @ replicate (n - 32) 0) sb 32 = Inr (rb @ sb @ replicate (n - 64) 0)"
    if "64 \<le> n" for n
    using that assms(2,4) by (simp add: u8_set_def)
  have store: "u8_store (rb @ sb @ replicate (65 - 64) 0) 64 v = rb @ sb @ [v]" for v
    using assms(2,4) by (simp add: u8_store_def list_update_append)
  show ?thesis
  proof (cases recoverable)
    case True
    with assms(1,3) set_r [of 65] set_s [of 65] store show ?thesis
      by (simp add: toJose_bytes_def)
  next
    case False
    with assms(1,3) set_r [of 64] set_s [of 64] show ?thesis
      by (simp add: toJose_bytes_def)
  qed
qed

subsection \<open>Round trip through the JOSE encoding\<close>

lemma u8_slice_append_left: "length a = n \<Longrightarrow> u8_slice (a @ b) 0 n = a"
  by (simp add: u8_slice_def)

lemma u8_slice_append_mid:
  "length a = 32 \<Longrightarrow> length b = 32 \<Longrightarrow> u8_slice (a @ b @ c) 32 64 = b"
  by (simp add: u8_slice_def)

text \<open>
  Claim C2. For every signature whose \<open>r\<close> and \<open>s\<close> are 64 lowercase hex characters and
  whose recovery parameter is 0 or 1, the recoverable JOSE encoding succeeds and decoding
  it gives the signature back: \<open>fromJose (toJose sig true) = sig\<close>.
\<close>

theorem fromJose_toJose_roundtrip:
  assumes "is_hex64 (ecdsa_r sg)" and "is_hex64 (ecdsa_s sg)"
    and "ecdsa_recoveryParam sg = Num 0 \<or> ecdsa_recoveryParam sg = Num 1"
  shows "\<exists>jose. toJose sg True = Inr jose \<and> fromJose jose = Inr sg"
proof -
  from assms(1) obtain rb where rb: "fromString_base16 (ecdsa_r sg) = Inr rb" "length rb = 32"
    by (rule is_hex64_decodes)
  from assms(2) obtain sb where sb: "fromString_base16 (ecdsa_s sg) = Inr sb" "length sb = 32"
    by (rule is_hex64_decodes)
  define v where "v = to_uint8 (ecdsa_recoveryParam sg)"
  let ?b = "rb @ sb @ [v]"
  from assms(3) have rp: "ecdsa_recoveryParam sg \<noteq> Undefined"
    and v: "Num (uint v) = ecdsa_recoveryParam sg"
    by (auto simp: v_def)
  from rb sb rp have enc: "toJose sg True = Inr (bytesToBase64url ?b)"
    by (simp add: toJose_def toJose_bytes_fixed_width v_def)
  have len: "length ?b = 65" using rb sb by simp
  have r: "bytesToHex (u8_slice ?b 0 32) = ecdsa_r sg"
    using rb by (simp add: u8_slice_append_left bytesToHex_def toString_fromString_base16)
  have s: "bytesToHex (u8_slice ?b 32 64) = ecdsa_s sg"
    using rb sb by (simp add: u8_slice_append_mid bytesToHex_def toString_fromString_base16)
  have last: "?b ! 64 = v" using rb sb by (simp add: nth_append)
  have "fromJose (bytesToBase64url ?b) =
      Inr \<lparr>ecdsa_r = ecdsa_r sg, ecdsa_s = ecdsa_s sg, ecdsa_recoveryParam = ecdsa_recoveryParam sg\<rparr>"
    unfolding fromJose_def base64ToBytes_bytesToBase64url
    using len r s last v by simp
  then have "fromJose (bytesToBase64url ?b) = Inr sg" by simp
  with enc show ?thesis by blast
qed

theorem fromJose_toJose_roundtrip_witness:
  "is_hex64 ''00112233445566778899aabbccddeeff00112233445566778899aabbccddeeff''
   \<and> is_hex64 ''ffeeddccbbaa99887766554433221100ffeeddccbbaa99887766554433221100''
   \<and> (\<exists>jose. toJose \<lparr>ecdsa_r = ''00112233445566778899aabbccddeeff00112233445566778899aabbccddeeff'',
                      ecdsa_s = ''ffeeddccbbaa99887766554433221100ffeeddccbbaa99887766554433221100'',
                      ecdsa_recoveryParam = Num 1\<rparr> True = Inr jose
       \<and> fromJose jose = Inr \<lparr>ecdsa_r = ''00112233445566778899aabbccddeeff00112233445566778899aabbccddeeff'',
                      ecdsa_s = ''ffeeddccbbaa99887766554433221100ffeeddccbbaa99887766554433221100'',
                      ecdsa_recoveryParam = Num 1\<rparr>)"
proof -
  have h1: "is_hex64 ''00112233445566778899aabbccddeeff00112233445566778899aabbccddeeff''"
    by (simp add: is_hex64_def hex_alphabet_def)
  have h2: "is_hex64 ''ffeeddccbbaa99887766554433221100ffeeddccbbaa99887766554433221100''"
    by (simp add: is_hex64_def hex_alphabet_def)
  show ?thesis
    using h1 h2 fromJose_toJose_roundtrip [of "\<lparr>ecdsa_r = ''00112233445566778899aabbccddeeff00112233445566778899aabbccddeeff'',
                      ecdsa_s = ''ffeeddccbbaa99887766554433221100ffeeddccbbaa99887766554433221100'',
                      ecdsa_recoveryParam = Num 1\<rparr>"]
    by simp
qed

subsection \<open>Decoding a JOSE signature\<close>

text \<open>
  Claim C7. Whenever the signature string decodes to bytes, \<open>fromJose\<close> fails with the
  wrong-size error for every length other than 64 and 65; at length 64 it returns \<open>r\<close> and
  \<open>s\<close> with no recovery parameter, and at length 65 it also returns the last byte as the
  recovery parameter.
\<close>

theorem fromJose_length_check:
  assumes "base64ToBytes signature = Inr b"
  shows "(length b \<noteq> 64 \<and> length b \<noteq> 65 \<longrightarrow>
            fromJose signature = Inl (InvalidSignatureLength (length b)))
       \<and> (length b = 64 \<longrightarrow>
            fromJose signature =
              Inr \<lparr>ecdsa_r = bytesToHex (take 32 b), ecdsa_s = bytesToHex (drop 32 b),
                   ecdsa_recoveryParam = Undefined\<rparr>)
       \<and> (length b = 65 \<longrightarrow>
            fromJose signature =
              Inr \<lparr>ecdsa_r = bytesToHex (take 32 b), ecdsa_s = bytesToHex (take 32 (drop 32 b)),
                   ecdsa_recoveryParam = Num (uint (last b))\<rparr>)"
proof -
  have "last b = b ! 64" if "length b = 65"
    using that by (cases b rule: rev_cases) (simp_all add: nth_append)
  with assms show ?thesis
    by (auto simp: fromJose_def u8_slice_def)
qed

theorem fromJose_length_check_witness:
  "fromJose [] = Inl (InvalidSignatureLength 0)
   \<and> fromJose ''AQ'' = Inl (InvalidSignatureLength 1)
   \<and> fromJose ''AAAAAAAAAAAAAAAAAAAAAAAAAAAAAAAAAAAAAAAAAAAAAAAAAAAAAAAAAAAAAAAAAAAAAAAAAAAAAAAAAAAA'' = Inl (InvalidSignatureLength 63)
   \<and> fromJose ''AAAAAAAAAAAAAAAAAAAAAAAAAAAAAAAAAAAAAAAAAAAAAAAAAAAAAAAAAAAAAAAAAAAAAAAAAAAAAAAAAAAAAAAA'' = Inl (InvalidSignatureLength 66)
   \<and> fromJose ''AAAAAAAAAAAAAAAAAAAAAAAAAAAAAAAAAAAAAAAAAAAAAAAAAAAAAAAAAAAAAAAAAAAAAAAAAAAAAAAAAAAAAA'' =
       Inr \<lparr>ecdsa_r = replicate 64 CHR ''0'', ecdsa_s = replicate 64 CHR ''0'',
            ecdsa_recoveryParam = Undefined\<rparr>
   \<and> fromJose ''AAAAAAAAAAAAAAAAAAAAAAAAAAAAAAAAAAAAAAAAAAAAAAAAAAAAAAAAAAAAAAAAAAAAAAAAAAAAAAAAAAAAAAE'' =
       Inr \<lparr>ecdsa_r = replicate 64 CHR ''0'', ecdsa_s = replicate 64 CHR ''0'',
            ecdsa_recoveryParam = Num 1\<rparr>"
proof -
  have d0: "base64ToBytes [] = Inr []" by code_simp
  have d1: "base64ToBytes ''AQ'' = Inr [1]" by code_simp
  have d63: "base64ToBytes ''AAAAAAAAAAAAAAAAAAAAAAAAAAAAAAAAAAAAAAAAAAAAAAAAAAAAAAAAAAAAAAAAAAAAAAAAAAAAAAAAAAAA'' = Inr (replicate 63 0)" by code_simp
  have d66: "base64ToBytes ''AAAAAAAAAAAAAAAAAAAAAAAAAAAAAAAAAAAAAAAAAAAAAAAAAAAAAAAAAAAAAAAAAAAAAAAAAAAAAAAAAAAAAAAA'' = Inr (replicate 66 0)" by code_simp
  have d64: "base64ToBytes ''AAAAAAAAAAAAAAAAAAAAAAAAAAAAAAAAAAAAAAAAAAAAAAAAAAAAAAAAAAAAAAAAAAAAAAAAAAAAAAAAAAAAAA'' = Inr (replicate 64 0)" by code_simp
  have d65: "base64ToBytes ''AAAAAAAAAAAAAAAAAAAAAAAAAAAAAAAAAAAAAAAAAAAAAAAAAAAAAAAAAAAAAAAAAAAAAAAAAAAAAAAAAAAAAAE'' = Inr (replicate 64 0 @ [1])" by code_simp
  have hex: "toString_base16 (replicate 32 0) = replicate 64 CHR ''0''" by code_simp
  show ?thesis
    using fromJose_length_check [OF d0] fromJose_length_check [OF d1]
      fromJose_length_check [OF d63] fromJose_length_check [OF d66]
      fromJose_length_check [OF d64] fromJose_length_check [OF d65]
    by (simp add: bytesToHex_def hex)
qed

subsection \<open>Left padding\<close>


lemma leftpad_short:
  "length data \<le> sz \<Longrightarrow> leftpad data sz = Inr (replicate (sz - length data) CHR ''0'' @ data)"
  by (auto simp: leftpad_def repeat_str_def nat_diff_distrib')

text \<open>
  Claim C9. An input shorter than the target length is left-padded with \<^verbatim>\<open>0\<close> up to the
  target, an input of the target length is returned unchanged, and for every input
  strictly longer than the target \<open>leftpad\<close> fails (the RangeError of \<^verbatim>\<open>'0'.repeat\<close> with a
  negative count) instead of returning a string; in particular
  \<open>leftpad "abc" 6 = "000abc"\<close> and \<open>leftpad "abcdef" 6 = "abcdef"\<close>.
\<close>

theorem leftpad_examples_and_overlong:
  "leftpad ''abc'' 6 = Inr ''000abc''
   \<and> leftpad ''abcdef'' 6 = Inr ''abcdef''
   \<and> (\<forall>data sz. length data < sz \<longrightarrow>
         leftpad data sz = Inr (replicate (sz - length data) CHR ''0'' @ data)
         \<and> length (replicate (sz - length data) CHR ''0'' @ data) = sz)
   \<and> (\<forall>data sz. length data = sz \<longrightarrow> leftpad data sz = Inr data)
   \<and> (\<forall>data sz. sz < length data \<longrightarrow> leftpad data sz = Inl RangeError)"
proof -
  have "leftpad ''abc'' 6 = Inr ''000abc''" by code_simp
  moreover have "leftpad ''abcdef'' 6 = Inr ''abcdef''" by code_simp
  moreover have "leftpad data sz = Inr (replicate (sz - length data) CHR ''0'' @ data)
      \<and> length (replicate (sz - length data) CHR ''0'' @ data) = sz"
    if "length data < sz" for data sz
    using that by (simp add: leftpad_short)
  moreover have "leftpad data sz = Inr data" if "length data = sz" for data sz
    using that by (simp add: leftpad_def)
  moreover have "leftpad data sz = Inl RangeError" if "sz < length data" for data sz
    using that by (simp add: leftpad_def repeat_str_def)
  ultimately show ?thesis by blast
qed

theorem leftpad_examples_and_overlong_witness:
  "length ''7f'' < (6::nat) \<and> leftpad ''7f'' 6 = Inr ''00007f''
   \<and> length ''12ab'' = (4::nat) \<and> leftpad ''12ab'' 4 = Inr ''12ab''
   \<and> (6::nat) < length ''abcdefg'' \<and> leftpad ''abcdefg'' 6 = Inl RangeError"
proof -
  have short: "length ''7f'' < (6::nat)" by simp
  have exact: "length ''12ab'' = (4::nat)" by simp
  have long: "(6::nat) < length ''abcdefg''" by simp
  have pad: "replicate (6 - length ''7f'') CHR ''0'' @ ''7f'' = ''00007f''" by code_simp
  from leftpad_examples_and_overlong short
  have "leftpad ''7f'' 6 = Inr (replicate (6 - length ''7f'') CHR ''0'' @ ''7f'')" by blast
  then have a: "leftpad ''7f'' 6 = Inr ''00007f''" unfolding pad .
  from leftpad_examples_and_overlong exact
  have b: "leftpad ''12ab'' 4 = Inr ''12ab''" by blast
  from leftpad_examples_and_overlong long
  have c: "leftpad ''abcdefg'' 6 = Inl RangeError" by blast
  from short a exact b long c show ?thesis by (intro conjI)
qed

subsection \<open>Decomposition into a general JWS\<close>


text \<open>
  Claim C1, as the code has it. \<open>toGeneralJWS\<close> has no failure: for every string it
  returns a general JWS with exactly one signature entry, made of the first three parts
  of the split at \<^verbatim>\<open>.\<close> (a missing part is \<^verbatim>\<open>undefined\<close>, later parts are dropped). When
  the string splits into exactly three parts, the payload is the middle part, and the
  signature entry carries the first part as \<open>protected\<close> and the third as \<open>signature\<close>.
\<close>

theorem toGeneralJWS_three_parts:
  "(\<exists>g. toGeneralJWS jws = Inr g \<and> length (jws_signatures g) = 1
      \<and> map jsig_protected (jws_signatures g) = [nth_opt (split_on CHR ''.'' jws) 0]
      \<and> jws_payload g = nth_opt (split_on CHR ''.'' jws) 1
      \<and> map jsig_signature (jws_signatures g) = [nth_opt (split_on CHR ''.'' jws) 2])
   \<and> (\<forall>a b c. split_on CHR ''.'' jws = [a, b, c] \<longrightarrow>
         toGeneralJWS jws =
           Inr \<lparr>jws_payload = Some b,
                jws_signatures = [\<lparr>jsig_protected = Some a, jsig_signature = Some c\<rparr>]\<rparr>)"
  by (simp add: toGeneralJWS_def nth_opt_def Let_def)

theorem toGeneralJWS_three_parts_witness:
  "split_on CHR ''.'' ''aa.bb.cc'' = [''aa'', ''bb'', ''cc'']
   \<and> toGeneralJWS ''aa.bb.cc'' =
       Inr \<lparr>jws_payload = Some ''bb'',
            jws_signatures = [\<lparr>jsig_protected = Some ''aa'', jsig_signature = Some ''cc''\<rparr>]\<rparr>"
proof -
  have h: "split_on CHR ''.'' ''aa.bb.cc'' = [''aa'', ''bb'', ''cc'']" by simp
  show ?thesis using h toGeneralJWS_three_parts [of "''aa.bb.cc''"] by blast
qed

text \<open>
  Claim C1 as written fails: a string with two parts, and one with four, is not rejected
  but decomposed like any other.
\<close>

theorem toGeneralJWS_not_rejected:
  "length (split_on CHR ''.'' ''aa.bb'') = 2
   \<and> toGeneralJWS ''aa.bb'' =
       Inr \<lparr>jws_payload = Some ''bb'',
            jws_signatures = [\<lparr>jsig_protected = Some ''aa'', jsig_signature = None\<rparr>]\<rparr>
   \<and> length (split_on CHR ''.'' ''aa.bb.cc.dd'') = 4
   \<and> toGeneralJWS ''aa.bb.cc.dd'' =
       Inr \<lparr>jws_payload = Some ''bb'',
            jws_signatures = [\<lparr>jsig_protected = Some ''aa'', jsig_signature = Some ''cc''\<rparr>]\<rparr>"
  by (simp add: toGeneralJWS_def nth_opt_def Let_def)

subsection \<open>The derived DID\<close>

lemma b58_alphabet_length: "length b58_alphabet = 58"
  by (simp add: b58_alphabet_def)

lemma b58_alphabet_class: "list_all b58_class b58_alphabet"
  by (simp add: b58_alphabet_def b58_class_def)

lemma b58_digits_class: "list_all b58_class (b58_digits n)"
proof (induction n rule: b58_digits.induct)
  case (1 n)
  show ?case
  proof (cases "n = 0")
    case True
    then show ?thesis by (simp add: b58_digits.simps)
  next
    case False
    have "b58_alphabet ! (n mod 58) \<in> set b58_alphabet"
      by (simp add: b58_alphabet_length)
    with b58_alphabet_class have "b58_class (b58_alphabet ! (n mod 58))"
      by (simp add: list_all_iff)
    with False "1.IH" show ?thesis
      by (subst b58_digits.simps) simp
  qed
qed

lemma b58_digits_nonempty: "0 < n \<Longrightarrow> b58_digits n \<noteq> []"
  by (subst b58_digits.simps) simp

lemma foldl_bytes_ge: "a \<le> foldl (\<lambda>acc x. acc * 256 + unat x) a (b :: bytes)"
proof (induction b arbitrary: a)
  case Nil
  then show ?case by simp
next
  case (Cons x b)
  have "a \<le> a * 256 + unat x" by simp
  also have "\<dots> \<le> foldl (\<lambda>acc x. acc * 256 + unat x) (a * 256 + unat x) b"
    by (rule Cons.IH)
  finally show ?case by simp
qed

lemma nat_of_bytes_pos: "x \<noteq> 0 \<Longrightarrow> 0 < nat_of_bytes (x # b)"
proof -
  assume "x \<noteq> 0"
  then have "0 < unat x" by (simp add: unat_gt_0)
  also have "unat x \<le> foldl (\<lambda>acc x. acc * 256 + unat x) (unat x) b"
    by (rule foldl_bytes_ge)
  finally show ?thesis by (simp add: nat_of_bytes_def)
qed

lemma toString_base58btc_class: "list_all b58_class (toString_base58btc b)"
proof -
  have "b58_class CHR ''1''" by (simp add: b58_class_def)
  then have "list_all b58_class (replicate k CHR ''1'')" for k
    by (induction k) simp_all
  then show ?thesis
    by (simp add: toString_base58btc_def b58_digits_class)
qed

lemma encodeDID_bytes:
  "encodeDID publicKey = Inr (''did:key:z'' @ toString_base58btc (0xe7 # 0x01 # publicKey))"
proof -
  have "u8_store (u8_store (u8_new (length publicKey + 2)) 0 0xe7) 1 0x01
      = 0xe7 # 0x01 # u8_new (length publicKey)"
    by (simp add: u8_store_def u8_new_def)
  moreover have "u8_set (0xe7 # 0x01 # u8_new (length publicKey)) publicKey 2
      = Inr (0xe7 # 0x01 # publicKey)"
    by (simp add: u8_set_def u8_new_def)
  ultimately show ?thesis by (simp add: encodeDID_def)
qed

text \<open>
  Claim C8. For every public key, \<open>encodeDID\<close> returns \<^verbatim>\<open>did:key:z\<close> followed by the
  base58btc encoding of the buffer of length \<open>key length + 2\<close> whose byte 0 is \<open>0xE7\<close>,
  byte 1 is \<open>0x01\<close> and whose remaining bytes are the key. The result is a function of the
  key and matches \<^verbatim>\<open>^did:key:z[1-9A-HJ-NP-Za-km-z]+$\<close>.
\<close>

theorem encodeDID_shape:
  "\<exists>buf. encodeDID publicKey = Inr (''did:key:z'' @ toString_base58btc buf)
     \<and> length buf = length publicKey + 2
     \<and> buf ! 0 = 0xe7 \<and> buf ! 1 = 0x01 \<and> drop 2 buf = publicKey
     \<and> matches_did_key (''did:key:z'' @ toString_base58btc buf)"
proof -
  let ?buf = "0xe7 # 0x01 # publicKey"
  have "(0xe7 :: byte) \<noteq> 0" by simp
  then have "0 < nat_of_bytes ?buf" by (rule nat_of_bytes_pos)
  then have "b58_digits (nat_of_bytes ?buf) \<noteq> []" by (rule b58_digits_nonempty)
  then have "toString_base58btc ?buf \<noteq> []" by (simp add: toString_base58btc_def)
  then have "matches_did_key (''did:key:z'' @ toString_base58btc ?buf)"
    by (simp add: matches_did_key_def toString_base58btc_class)
  then show ?thesis
    by (intro exI [of _ ?buf]) (simp add: encodeDID_bytes)
qed

subsection \<open>Padding big numbers to 32 bytes\<close>

lemma hex_digit_mem: "n < 16 \<Longrightarrow> hex_digit n \<in> set hex_alphabet"
  by (simp add: hex_digit_def hex_alphabet_props)

lemma bn_toString_hex_chars: "list_all (\<lambda>c. c \<in> set hex_alphabet) (bn_toString_hex n)"
proof (induction n rule: bn_toString_hex.induct)
  case (1 n)
  show ?case
  proof (cases "n < 16")
    case True
    then show ?thesis by (subst bn_toString_hex.simps) (simp add: hex_digit_mem)
  next
    case False
    with "1.IH" show ?thesis
      by (subst bn_toString_hex.simps) (simp add: hex_digit_mem)
  qed
qed

lemma length_bn_toString_hex: "n < 16 ^ Suc k \<Longrightarrow> length (bn_toString_hex n) \<le> Suc k"
proof (induction k arbitrary: n)
  case 0
  then show ?case by (subst bn_toString_hex.simps) simp
next
  case (Suc k)
  show ?case
  proof (cases "n < 16")
    case True
    then show ?thesis by (subst bn_toString_hex.simps) simp
  next
    case False
    from Suc.prems have "n div 16 < 16 ^ Suc k"
      by (simp add: less_mult_imp_div_less mult.commute)
    then have "length (bn_toString_hex (n div 16)) \<le> Suc k" by (rule Suc.IH)
    with False show ?thesis by (subst bn_toString_hex.simps) simp
  qed
qed

lemma foldl_hex_bn:
  "foldl hex_step a (bn_toString_hex n) = a * 16 ^ length (bn_toString_hex n) + n"
proof (induction n arbitrary: a rule: bn_toString_hex.induct)
  case (1 n)
  show ?case
  proof (cases "n < 16")
    case True
    then show ?thesis by (subst (1 2) bn_toString_hex.simps) (simp add: hex_val_digit)
  next
    case False
    have "n mod 16 < 16" by simp
    with False "1.IH" [of a] show ?thesis
      by (subst (1 2) bn_toString_hex.simps) (simp add: hex_val_digit algebra_simps)
  qed
qed

lemma hex_val_zero: "hex_val CHR ''0'' = Some 0"
  by (simp add: hex_val_def hex_alphabet_def)

lemma foldl_hex_zeros: "foldl hex_step 0 (replicate k CHR ''0'') = 0"
  by (induction k) (simp_all add: hex_val_zero)

lemma nat_of_hex_padded: "nat_of_hex (replicate k CHR ''0'' @ bn_toString_hex n) = n"
  by (simp add: nat_of_hex_def foldl_hex_zeros foldl_hex_bn)

lemma foldl_bytes_hex:
  "fromString_base16 s = Inr b \<Longrightarrow>
   foldl (\<lambda>acc x. acc * 256 + unat x) a b = foldl hex_step a s"
proof (induction s arbitrary: a b rule: fromString_base16.induct)
  case 1
  then show ?case by simp
next
  case (2 c)
  then show ?case by simp
next
  case (3 c d cs)
  from "3.prems" obtain h l bs where
    h: "hex_val c = Some h" and l: "hex_val d = Some l"
    and bs: "fromString_base16 cs = Inr bs" and b: "b = of_nat (h * 16 + l) # bs"
    by (auto split: option.splits sum.splits)
  from h l have "h < 16" "l < 16" by (auto dest: hex_val_Some)
  then have u: "unat (of_nat (h * 16 + l) :: byte) = h * 16 + l"
    by (intro unat_of_nat_byte) simp
  have "foldl (\<lambda>acc x. acc * 256 + unat x) (a * 256 + (h * 16 + l)) bs
      = foldl hex_step (a * 256 + (h * 16 + l)) cs"
    by (rule "3.IH" [OF refl h l bs])
  moreover have "(a * 16 + h) * 16 + l = a * 256 + (h * 16 + l)" by simp
  ultimately show ?case using h l b u by (simp add: algebra_simps)
qed

lemma nat_of_bytes_hex: "fromString_base16 s = Inr b \<Longrightarrow> nat_of_bytes b = nat_of_hex s"
  by (simp add: nat_of_bytes_def nat_of_hex_def foldl_bytes_hex)

lemma leftpad_bn:
  assumes "n < 2 ^ 256"
  obtains p where "leftpad (bn_toString_hex n) 64 = Inr p" "is_hex64 p" "nat_of_hex p = n"
proof -
  let ?h = "bn_toString_hex n"
  have "(2::nat) ^ 256 = 16 ^ Suc 63" by simp
  with assms have "n < 16 ^ Suc 63" by (simp only:)
  then have len: "length ?h \<le> 64" using length_bn_toString_hex [of n 63] by simp
  let ?p = "replicate (64 - length ?h) CHR ''0'' @ ?h"
  from len have "leftpad ?h 64 = Inr ?p" by (rule leftpad_short)
  moreover have "is_hex64 ?p"
  proof -
    have "CHR ''0'' \<in> set hex_alphabet" by (simp add: hex_alphabet_def)
    then have "list_all (\<lambda>c. c \<in> set hex_alphabet) (replicate k CHR ''0'')" for k
      by (induction k) simp_all
    with len show ?thesis by (simp add: is_hex64_def bn_toString_hex_chars)
  qed
  moreover have "nat_of_hex ?p = n" by (rule nat_of_hex_padded)
  ultimately show ?thesis by (rule that)
qed

lemma signer_bytes:
  assumes "ec_r sg < 2 ^ 256" and "ec_s sg < 2 ^ 256"
  obtains r s rb sb where
    "leftpad (bn_toString_hex (ec_r sg)) 64 = Inr r" "leftpad (bn_toString_hex (ec_s sg)) 64 = Inr s"
    "fromString_base16 r = Inr rb" "fromString_base16 s = Inr sb"
    "length rb = 32" "length sb = 32" "nat_of_bytes rb = ec_r sg" "nat_of_bytes sb = ec_s sg"
proof -
  from assms(1) obtain r where r: "leftpad (bn_toString_hex (ec_r sg)) 64 = Inr r"
    "is_hex64 r" "nat_of_hex r = ec_r sg" by (rule leftpad_bn)
  from assms(2) obtain s where s: "leftpad (bn_toString_hex (ec_s sg)) 64 = Inr s"
    "is_hex64 s" "nat_of_hex s = ec_s sg" by (rule leftpad_bn)
  from r(2) obtain rb where rb: "fromString_base16 r = Inr rb" "length rb = 32"
    by (rule is_hex64_decodes)
  from s(2) obtain sb where sb: "fromString_base16 s = Inr sb" "length sb = 32"
    by (rule is_hex64_decodes)
  from rb(1) r(3) have nr: "nat_of_bytes rb = ec_r sg" by (simp add: nat_of_bytes_hex)
  from sb(1) s(3) have ns: "nat_of_bytes sb = ec_s sg" by (simp add: nat_of_bytes_hex)
  from r(1) s(1) rb(1) sb(1) rb(2) sb(2) nr ns show ?thesis by (rule that)
qed

subsection \<open>The local signer\<close>

lemma ES256KSigner_sign_padded:
  assumes sg: "sg = keyPair_sign cr privateKey (sha256 cr data)"
    and bound: "ec_r sg < 2 ^ 256" "ec_s sg < 2 ^ 256"
  shows "\<exists>rb sb. length rb = 32 \<and> length sb = 32
           \<and> nat_of_bytes rb = ec_r sg \<and> nat_of_bytes sb = ec_s sg
           \<and> ES256KSigner_sign cr privateKey recoverable data =
               (if recoverable then
                  (if ec_recoveryParam sg = Undefined then Inl MissingRecoveryParam
                   else Inr (PreEncoded (bytesToBase64url
                               (rb @ sb @ [to_uint8 (ec_recoveryParam sg)]))))
                else Inr (PreEncoded (bytesToBase64url (rb @ sb))))"
proof -
  from bound obtain r s rb sb where
    pad: "leftpad (bn_toString_hex (ec_r sg)) 64 = Inr r"
      "leftpad (bn_toString_hex (ec_s sg)) 64 = Inr s"
    and dec: "fromString_base16 r = Inr rb" "fromString_base16 s = Inr sb"
    and len: "length rb = 32" "length sb = 32"
    and val: "nat_of_bytes rb = ec_r sg" "nat_of_bytes sb = ec_s sg"
    by (rule signer_bytes)
  let ?sig = "\<lparr>ecdsa_r = r, ecdsa_s = s, ecdsa_recoveryParam = ec_recoveryParam sg\<rparr>"
  have "toJose_bytes ?sig recoverable =
     (if recoverable then
        (if ec_recoveryParam sg = Undefined then Inl MissingRecoveryParam
         else Inr (rb @ sb @ [to_uint8 (ec_recoveryParam sg)]))
      else Inr (rb @ sb))"
    using toJose_bytes_fixed_width [of ?sig rb sb recoverable] dec len by simp
  then have "ES256KSigner_sign cr privateKey recoverable data =
             (if recoverable then
                (if ec_recoveryParam sg = Undefined then Inl MissingRecoveryParam
                 else Inr (PreEncoded (bytesToBase64url
                             (rb @ sb @ [to_uint8 (ec_recoveryParam sg)]))))
              else Inr (PreEncoded (bytesToBase64url (rb @ sb))))"
    using pad sg by (simp add: ES256KSigner_sign_def toJose_def Let_def)
  with len val show ?thesis by blast
qed

lemma ES256KSigner_sign_not_structured:
  "ES256KSigner_sign cr privateKey recoverable data \<noteq> Inr (Structured sg)"
  by (simp add: ES256KSigner_sign_def Let_def split: sum.splits)

text \<open>
  Claim C3, as the code has it. \<open>ES256KSigner\<close> fails with the bad-key error for every
  private key whose length is not 32. For a 32-byte key it returns a signer that hashes
  the message with SHA-256, signs the hash over secp256k1 and, for \<open>r\<close> and \<open>s\<close> below
  \<open>2 ^ 256\<close>, left-pads them to 32 bytes each; what it returns is the base64url JOSE
  encoding of \<open>r || s\<close> (with the recovery byte appended when \<open>recoverable\<close> is set), a
  string, never a structured signature.
\<close>

theorem ES256KSigner_returns_jose:
  "(length privateKey \<noteq> 32 \<longrightarrow>
      ES256KSigner cr privateKey recoverable = Inl (BadKeyFormat (length privateKey)))
   \<and> (length privateKey = 32 \<longrightarrow>
      ES256KSigner cr privateKey recoverable = Inr (ES256KSigner_sign cr privateKey recoverable))
   \<and> (\<forall>sg. sg = keyPair_sign cr privateKey (sha256 cr data) \<and> ec_r sg < 2 ^ 256 \<and> ec_s sg < 2 ^ 256 \<longrightarrow>
        (\<exists>rb sb. length rb = 32 \<and> length sb = 32
           \<and> nat_of_bytes rb = ec_r sg \<and> nat_of_bytes sb = ec_s sg
           \<and> ES256KSigner_sign cr privateKey recoverable data =
               (if recoverable then
                  (if ec_recoveryParam sg = Undefined then Inl MissingRecoveryParam
                   else Inr (PreEncoded (bytesToBase64url
                               (rb @ sb @ [to_uint8 (ec_recoveryParam sg)]))))
                else Inr (PreEncoded (bytesToBase64url (rb @ sb))))))
   \<and> (\<forall>sg. ES256KSigner_sign cr privateKey recoverable data \<noteq> Inr (Structured sg))"
proof -
  have key: "length privateKey \<noteq> 32 \<longrightarrow>
      ES256KSigner cr privateKey recoverable = Inl (BadKeyFormat (length privateKey))"
    "length privateKey = 32 \<longrightarrow>
      ES256KSigner cr privateKey recoverable = Inr (ES256KSigner_sign cr privateKey recoverable)"
    by (simp_all add: ES256KSigner_def)
  have enc: "\<exists>rb sb. length rb = 32 \<and> length sb = 32
           \<and> nat_of_bytes rb = ec_r sg \<and> nat_of_bytes sb = ec_s sg
           \<and> ES256KSigner_sign cr privateKey recoverable data =
               (if recoverable then
                  (if ec_recoveryParam sg = Undefined then Inl MissingRecoveryParam
                   else Inr (PreEncoded (bytesToBase64url
                               (rb @ sb @ [to_uint8 (ec_recoveryParam sg)]))))
                else Inr (PreEncoded (bytesToBase64url (rb @ sb))))"
    if "sg = keyPair_sign cr privateKey (sha256 cr data)"
      and "ec_r sg < 2 ^ 256" "ec_s sg < 2 ^ 256" for sg
    using that by (rule ES256KSigner_sign_padded)
  have str: "ES256KSigner_sign cr privateKey recoverable data \<noteq> Inr (Structured sg)" for sg
    by (rule ES256KSigner_sign_not_structured)
  from key enc str show ?thesis by blast
qed

theorem ES256KSigner_returns_jose_witness:
  "length key32 = 32
   \<and> ES256KSigner fixed_crypto key32 False = Inr (ES256KSigner_sign fixed_crypto key32 False)
   \<and> length [1, 2, 3 :: byte] \<noteq> 32
   \<and> ES256KSigner fixed_crypto [1, 2, 3] False = Inl (BadKeyFormat 3)
   \<and> (\<exists>rb sb. length rb = 32 \<and> length sb = 32 \<and> nat_of_bytes rb = 1 \<and> nat_of_bytes sb = 258
        \<and> ES256KSigner_sign fixed_crypto key32 False (DStr ''abc'') =
            Inr (PreEncoded (bytesToBase64url (rb @ sb))))"
proof -
  have k: "length key32 = 32" by (simp add: key32_def)
  have sg: "keyPair_sign fixed_crypto key32 (sha256 fixed_crypto (DStr ''abc''))
      = \<lparr>ec_r = 1, ec_s = 258, ec_recoveryParam = Num 1\<rparr>"
    by (simp add: fixed_crypto_def)
  show ?thesis
    using k sg ES256KSigner_returns_jose [of key32 fixed_crypto False "DStr ''abc''"]
      ES256KSigner_returns_jose [of "[1, 2, 3]" fixed_crypto False "DStr ''abc''"]
    by simp
qed

text \<open>
  Claim C3 as written fails in its last part: for a valid key the signer returns the
  encoded string, not the structured signature with the padded \<open>r\<close> and \<open>s\<close>.
\<close>

theorem ES256KSigner_not_structured:
  "ES256KSigner fixed_crypto key32 False = Inr (ES256KSigner_sign fixed_crypto key32 False)
   \<and> ES256KSigner_sign fixed_crypto key32 False (DStr ''abc'') =
       Inr (PreEncoded
         ''AAAAAAAAAAAAAAAAAAAAAAAAAAAAAAAAAAAAAAAAAAEAAAAAAAAAAAAAAAAAAAAAAAAAAAAAAAAAAAAAAAABAg'')
   \<and> ES256KSigner_sign fixed_crypto key32 False (DStr ''abc'') \<noteq>
       Inr (Structured
         \<lparr>ecdsa_r = ''0000000000000000000000000000000000000000000000000000000000000001'',
          ecdsa_s = ''0000000000000000000000000000000000000000000000000000000000000102'',
          ecdsa_recoveryParam = Num 1\<rparr>)"
proof -
  have "ES256KSigner fixed_crypto key32 False = Inr (ES256KSigner_sign fixed_crypto key32 False)"
    by (simp add: ES256KSigner_def key32_def)
  moreover have "ES256KSigner_sign fixed_crypto key32 False (DStr ''abc'') =
       Inr (PreEncoded
         ''AAAAAAAAAAAAAAAAAAAAAAAAAAAAAAAAAAAAAAAAAAEAAAAAAAAAAAAAAAAAAAAAAAAAAAAAAAAAAAAAAAABAg'')"
    by code_simp
  ultimately show ?thesis by simp
qed

subsection \<open>The remote signer\<close>

lemma length_u8_set: "u8_set target src offset = Inr t \<Longrightarrow> length t = length target"
  by (auto simp: u8_set_def split: if_splits)

lemma toJose_bytes_non_recoverable_length:
  assumes "toJose_bytes sg False = Inr jose"
  shows "length jose = 64"
proof -
  from assms obtain rb j1 sb where
    "u8_set (u8_new 64) rb 0 = Inr j1" "u8_set j1 sb 32 = Inr jose"
    by (auto simp: toJose_bytes_def split: sum.splits)
  then show ?thesis by (auto dest!: length_u8_set simp: u8_new_def)
qed

lemma toJose_non_recoverable_ignores:
  "toJose \<lparr>ecdsa_r = r, ecdsa_s = s, ecdsa_recoveryParam = rp\<rparr> False =
   toJose \<lparr>ecdsa_r = r, ecdsa_s = s, ecdsa_recoveryParam = rp'\<rparr> False"
proof -
  have "toJose_bytes \<lparr>ecdsa_r = r, ecdsa_s = s, ecdsa_recoveryParam = rp\<rparr> False =
      toJose_bytes \<lparr>ecdsa_r = r, ecdsa_s = s, ecdsa_recoveryParam = rp'\<rparr> False"
    by (simp add: toJose_bytes_def split: sum.splits)
  then show ?thesis by (simp add: toJose_def)
qed

text \<open>
  Claim C10. Whatever the remote service answers, the signer of \<open>ES256KSignerWithLit\<close>
  encodes with \<open>recoverable = false\<close>: its result is the non-recoverable JOSE encoding of
  the service's \<open>r\<close> and \<open>s\<close> exactly as received (no left padding), the same for every
  value of the recovery id, and every signature it returns is the base64url text of
  exactly 64 bytes.
\<close>

theorem ES256KSignerWithLit_non_recoverable:
  assumes "lit (sha256 cr data) = Inr sg"
  shows "(\<forall>rp. ES256KSignerWithLit cr lit data =
            (case toJose \<lparr>ecdsa_r = lit_r sg, ecdsa_s = lit_s sg, ecdsa_recoveryParam = rp\<rparr> False of
               Inl e \<Rightarrow> Inl e
             | Inr jose \<Rightarrow> Inr (PreEncoded jose)))
       \<and> (\<forall>out. ES256KSignerWithLit cr lit data = Inr out \<longrightarrow>
            (\<exists>jose. out = PreEncoded (bytesToBase64url jose) \<and> length jose = 64))
       \<and> (is_hex64 (lit_r sg) \<and> is_hex64 (lit_s sg) \<longrightarrow>
            (\<exists>rb sb. fromString_base16 (lit_r sg) = Inr rb \<and> fromString_base16 (lit_s sg) = Inr sb
               \<and> ES256KSignerWithLit cr lit data = Inr (PreEncoded (bytesToBase64url (rb @ sb)))))"
proof -
  define sig_with :: "recovery \<Rightarrow> EcdsaSignature" where
    "sig_with rp = \<lparr>ecdsa_r = lit_r sg, ecdsa_s = lit_s sg, ecdsa_recoveryParam = rp\<rparr>" for rp
  have same: "toJose (sig_with rp) False = toJose (sig_with (Num (lit_recid sg))) False" for rp
    unfolding sig_with_def by (rule toJose_non_recoverable_ignores)
  have run: "ES256KSignerWithLit cr lit data =
      (case toJose (sig_with rp) False of Inl e \<Rightarrow> Inl e | Inr jose \<Rightarrow> Inr (PreEncoded jose))" for rp
    using assms unfolding same [of rp] by (simp add: ES256KSignerWithLit_def sig_with_def)
  have len: "\<exists>jose. out = PreEncoded (bytesToBase64url jose) \<and> length jose = 64"
    if "ES256KSignerWithLit cr lit data = Inr out" for out
  proof -
    from that run [of Undefined] obtain jose where
      "toJose_bytes (sig_with Undefined) False = Inr jose" "out = PreEncoded (bytesToBase64url jose)"
      by (auto simp: toJose_def split: sum.splits)
    then show ?thesis by (auto dest: toJose_bytes_non_recoverable_length)
  qed
  have ok: "\<exists>rb sb. fromString_base16 (lit_r sg) = Inr rb \<and> fromString_base16 (lit_s sg) = Inr sb
               \<and> ES256KSignerWithLit cr lit data = Inr (PreEncoded (bytesToBase64url (rb @ sb)))"
    if "is_hex64 (lit_r sg)" "is_hex64 (lit_s sg)"
  proof -
    from that(1) obtain rb where rb: "fromString_base16 (lit_r sg) = Inr rb" "length rb = 32"
      by (rule is_hex64_decodes)
    from that(2) obtain sb where sb: "fromString_base16 (lit_s sg) = Inr sb" "length sb = 32"
      by (rule is_hex64_decodes)
    have "toJose_bytes (sig_with Undefined) False = Inr (rb @ sb)"
      using toJose_bytes_fixed_width [of "sig_with Undefined" rb sb False] rb sb
      by (simp add: sig_with_def)
    with run [of Undefined] rb(1) sb(1) show ?thesis by (simp add: toJose_def)
  qed
  from run len ok show ?thesis unfolding sig_with_def by blast
qed

theorem ES256KSignerWithLit_non_recoverable_witness:
  "fixed_lit (sha256 fixed_crypto (DStr ''abc'')) = Inr \<lparr>lit_r = ''01'', lit_s = ''0102'', lit_recid = 1\<rparr>
   \<and> ES256KSignerWithLit fixed_crypto fixed_lit (DStr ''abc'') =
       (case toJose \<lparr>ecdsa_r = ''01'', ecdsa_s = ''0102'', ecdsa_recoveryParam = Undefined\<rparr> False of
          Inl e \<Rightarrow> Inl e
        | Inr jose \<Rightarrow> Inr (PreEncoded jose))
   \<and> ES256KSignerWithLit fixed_crypto fixed_lit (DStr ''abc'') =
       Inr (PreEncoded
         ''AQAAAAAAAAAAAAAAAAAAAAAAAAAAAAAAAAAAAAAAAAABAgAAAAAAAAAAAAAAAAAAAAAAAAAAAAAAAAAAAAAAAA'')
   \<and> (\<exists>jose. PreEncoded
         ''AQAAAAAAAAAAAAAAAAAAAAAAAAAAAAAAAAAAAAAAAAABAgAAAAAAAAAAAAAAAAAAAAAAAAAAAAAAAAAAAAAAAA''
         = PreEncoded (bytesToBase64url jose) \<and> length jose = 64)"
proof -
  have h: "fixed_lit (sha256 fixed_crypto (DStr ''abc'')) =
      Inr \<lparr>lit_r = ''01'', lit_s = ''0102'', lit_recid = 1\<rparr>"
    by (simp add: fixed_lit_def)
  have v: "ES256KSignerWithLit fixed_crypto fixed_lit (DStr ''abc'') =
       Inr (PreEncoded
         ''AQAAAAAAAAAAAAAAAAAAAAAAAAAAAAAAAAAAAAAAAAABAgAAAAAAAAAAAAAAAAAAAAAAAAAAAAAAAAAAAAAAAA'')"
    by code_simp
  show ?thesis
    using h v ES256KSignerWithLit_non_recoverable [of fixed_lit fixed_crypto "DStr ''abc''", OF h]
    by (simp del: One_nat_def)
qed

subsection \<open>Compact JWS: header, separators, decomposition\<close>

lemma encodeSection_no_dot: "CHR ''.'' \<notin> set (encodeSection j)"
  by (simp add: encodeSection_def encodeBase64url_def bytesToBase64url_no_dot)

lemma base64ToBytes_encodeSection:
  "base64ToBytes (encodeSection j) = Inr (utf8_encode (JSON_stringify j))"
  by (simp add: encodeSection_def encodeBase64url_def base64ToBytes_bytesToBase64url)

lemma SignerAlg_ES256K: "SignerAlg (Some (JStr ''ES256K'')) = Inr (ES256KSignerAlg False)"
  by (simp add: SignerAlg_def algorithms_def)

lemma createJWS_alg_ES256K:
  assumes "obj_get header ''alg'' = Some (JStr ''ES256K'')"
  shows "createJWS payload signer header =
     (case ES256KSignerAlg False (encodeSection (JObj header) @ ''.'' @ encodePayload payload) signer of
        Inl e \<Rightarrow> Inl e
      | Inr sig \<Rightarrow> Inr (encodeSection (JObj header) @ ''.'' @ encodePayload payload @ ''.'' @ sig))"
  using assms by (simp add: createJWS_def SignerAlg_ES256K Let_def split: sum.splits)

lemma createJWS_empty_header:
  "createJWS payload signer [] = createJWS payload signer [(''alg'', JStr ''ES256K'')]"
  by (simp add: createJWS_def obj_get_def Let_def)

lemma toGeneralJWS_protected:
  assumes "CHR ''.'' \<notin> set h"
  shows "\<exists>g. toGeneralJWS (h @ ''.'' @ rest) = Inr g
           \<and> map jsig_protected (jws_signatures g) = [Some h]"
  using assms split_on_append [of "CHR ''.''" h rest]
  by (simp add: toGeneralJWS_def nth_opt_def Let_def)

lemma ES256KSignerAlg_no_dot:
  assumes "signer (DStr p) = Inr out"
    and "case out of Structured sg \<Rightarrow> True | PreEncoded s \<Rightarrow> CHR ''.'' \<notin> set s"
    and "ES256KSignerAlg False p signer = Inr sig"
  shows "CHR ''.'' \<notin> set sig"
proof (cases out)
  case (Structured sg)
  with assms(1,3) obtain jose where "sig = bytesToBase64url jose"
    by (auto simp: ES256KSignerAlg_def toJose_def split: sum.splits)
  then show ?thesis by (simp add: bytesToBase64url_no_dot)
next
  case (PreEncoded s)
  with assms show ?thesis by (simp add: ES256KSignerAlg_def)
qed

lemma count_dots_compact:
  "CHR ''.'' \<notin> set h \<Longrightarrow>
   count_list (h @ ''.'' @ p @ ''.'' @ sig) CHR ''.'' =
     2 + count_list p CHR ''.'' + count_list sig CHR ''.''"
  by (simp add: count_list_0_iff)

lemma JSON_stringify_alg:
  "JSON_stringify (JObj [(''alg'', JStr ''ES256K'')]) =
     [CHR ''{'', CHR 0x22, CHR ''a'', CHR ''l'', CHR ''g'', CHR 0x22, CHR '':'',
      CHR 0x22, CHR ''E'', CHR ''S'', CHR ''2'', CHR ''5'', CHR ''6'', CHR ''K'', CHR 0x22,
      CHR ''}'']"
  by code_simp

lemma encodeSection_alg:
  "encodeSection (JObj [(''alg'', JStr ''ES256K'')]) = ''eyJhbGciOiJFUzI1NksifQ''"
  by code_simp

text \<open>
  Claim C4, as the code has it. With an empty header \<open>createJWS\<close> sets \<open>alg\<close> to
  \<^verbatim>\<open>ES256K\<close>: it signs with the ES256K algorithm and, when the signer succeeds, returns
  header, payload and signature joined by \<^verbatim>\<open>.\<close>, the header being the base64url text of
  the JSON object with the single member \<open>alg: "ES256K"\<close>. \<open>toGeneralJWS\<close> of the result
  has that header as the \<open>protected\<close> of its one signature entry. The number of
  separators is two plus the dots of the encoded payload and of the signature: exactly
  two for an object payload (which is base64url-encoded) with a signature that is
  JOSE-encoded or a pre-encoded string without a dot; a string payload is used verbatim
  and keeps its dots.
\<close>

theorem createJWS_default_header:
  "createJWS payload signer [] =
      (case ES256KSignerAlg False
              (encodeSection (JObj [(''alg'', JStr ''ES256K'')]) @ ''.'' @ encodePayload payload)
              signer of
         Inl e \<Rightarrow> Inl e
       | Inr sig \<Rightarrow>
           Inr (encodeSection (JObj [(''alg'', JStr ''ES256K'')]) @ ''.'' @ encodePayload payload
                  @ ''.'' @ sig))
   \<and> base64ToBytes (encodeSection (JObj [(''alg'', JStr ''ES256K'')])) =
         Inr (utf8_encode (JSON_stringify (JObj [(''alg'', JStr ''ES256K'')])))
   \<and> JSON_stringify (JObj [(''alg'', JStr ''ES256K'')]) =
         [CHR ''{'', CHR 0x22] @ ''alg'' @ [CHR 0x22, CHR '':'', CHR 0x22] @ ''ES256K''
           @ [CHR 0x22, CHR ''}'']
   \<and> (\<forall>jws. createJWS payload signer [] = Inr jws \<longrightarrow>
         (\<exists>g. toGeneralJWS jws = Inr g
            \<and> map jsig_protected (jws_signatures g) =
                 [Some (encodeSection (JObj [(''alg'', JStr ''ES256K'')]))])
       \<and> (\<exists>sig. jws = encodeSection (JObj [(''alg'', JStr ''ES256K'')]) @ ''.''
                         @ encodePayload payload @ ''.'' @ sig
            \<and> count_list jws CHR ''.'' =
                 2 + count_list (encodePayload payload) CHR ''.'' + count_list sig CHR ''.'')
       \<and> (\<forall>obj out. payload = PayloadObject obj
              \<and> signer (DStr (encodeSection (JObj [(''alg'', JStr ''ES256K'')]) @ ''.''
                                 @ encodePayload payload)) = Inr out
              \<and> (case out of Structured sg \<Rightarrow> True | PreEncoded s \<Rightarrow> CHR ''.'' \<notin> set s)
              \<longrightarrow> count_list jws CHR ''.'' = 2))"
proof -
  let ?H = "encodeSection (JObj [(''alg'', JStr ''ES256K'')])"
  let ?P = "encodePayload payload"
  have run: "createJWS payload signer [] =
      (case ES256KSignerAlg False (?H @ ''.'' @ ?P) signer of
         Inl e \<Rightarrow> Inl e
       | Inr sig \<Rightarrow> Inr (?H @ ''.'' @ ?P @ ''.'' @ sig))"
    unfolding createJWS_empty_header
    by (rule createJWS_alg_ES256K) (simp add: obj_get_def)
  have dec: "base64ToBytes ?H = Inr (utf8_encode (JSON_stringify (JObj [(''alg'', JStr ''ES256K'')])))"
    by (rule base64ToBytes_encodeSection)
  have body: "JSON_stringify (JObj [(''alg'', JStr ''ES256K'')]) =
         [CHR ''{'', CHR 0x22] @ ''alg'' @ [CHR 0x22, CHR '':'', CHR 0x22] @ ''ES256K''
           @ [CHR 0x22, CHR ''}'']"
    unfolding JSON_stringify_alg by simp
  have nodot: "CHR ''.'' \<notin> set ?H" by (rule encodeSection_no_dot)
  have res: "(\<exists>g. toGeneralJWS jws = Inr g \<and> map jsig_protected (jws_signatures g) = [Some ?H])
       \<and> (\<exists>sig. jws = ?H @ ''.'' @ ?P @ ''.'' @ sig
            \<and> count_list jws CHR ''.'' =
                 2 + count_list ?P CHR ''.'' + count_list sig CHR ''.'')
       \<and> (\<forall>obj out. payload = PayloadObject obj
              \<and> signer (DStr (?H @ ''.'' @ ?P)) = Inr out
              \<and> (case out of Structured sg \<Rightarrow> True | PreEncoded s \<Rightarrow> CHR ''.'' \<notin> set s)
              \<longrightarrow> count_list jws CHR ''.'' = 2)"
    if ok: "createJWS payload signer [] = Inr jws" for jws
  proof -
    from ok run obtain sig where
      sig: "ES256KSignerAlg False (?H @ ''.'' @ ?P) signer = Inr sig"
      and jws: "jws = ?H @ ''.'' @ ?P @ ''.'' @ sig"
      by (auto split: sum.splits)
    have g: "\<exists>g. toGeneralJWS jws = Inr g \<and> map jsig_protected (jws_signatures g) = [Some ?H]"
      unfolding jws using nodot by (rule toGeneralJWS_protected)
    have cnt: "count_list jws CHR ''.'' = 2 + count_list ?P CHR ''.'' + count_list sig CHR ''.''"
      unfolding jws using nodot by (rule count_dots_compact)
    have two: "count_list jws CHR ''.'' = 2"
      if "payload = PayloadObject obj" "signer (DStr (?H @ ''.'' @ ?P)) = Inr out"
        "case out of Structured sg \<Rightarrow> True | PreEncoded s \<Rightarrow> CHR ''.'' \<notin> set s" for obj out
    proof -
      from that(1) have "CHR ''.'' \<notin> set ?P"
        by (simp add: encodePayload_def encodeSection_no_dot)
      moreover from that(2,3) sig have "CHR ''.'' \<notin> set sig"
        by (rule ES256KSignerAlg_no_dot)
      ultimately show ?thesis using cnt by (simp add: count_list_0_iff)
    qed
    from g jws cnt two show ?thesis by blast
  qed
  from run dec body res show ?thesis by blast
qed

theorem createJWS_default_header_witness:
  "createJWS (PayloadObject [(''x'', JNum 1)]) (ES256KSigner_sign fixed_crypto key32 False) [] =
     Inr ''eyJhbGciOiJFUzI1NksifQ.eyJ4IjoxfQ.AAAAAAAAAAAAAAAAAAAAAAAAAAAAAAAAAAAAAAAAAAEAAAAAAAAAAAAAAAAAAAAAAAAAAAAAAAAAAAAAAAABAg''
   \<and> count_list
        ''eyJhbGciOiJFUzI1NksifQ.eyJ4IjoxfQ.AAAAAAAAAAAAAAAAAAAAAAAAAAAAAAAAAAAAAAAAAAEAAAAAAAAAAAAAAAAAAAAAAAAAAAAAAAAAAAAAAAABAg''
        CHR ''.'' = 2
   \<and> (\<exists>g. toGeneralJWS
        ''eyJhbGciOiJFUzI1NksifQ.eyJ4IjoxfQ.AAAAAAAAAAAAAAAAAAAAAAAAAAAAAAAAAAAAAAAAAAEAAAAAAAAAAAAAAAAAAAAAAAAAAAAAAAAAAAAAAAABAg''
          = Inr g
        \<and> map jsig_protected (jws_signatures g) = [Some ''eyJhbGciOiJFUzI1NksifQ''])"
proof -
  let ?P = "PayloadObject [(''x'', JNum 1)]"
  let ?S = "ES256KSigner_sign fixed_crypto key32 False"
  let ?J = "''eyJhbGciOiJFUzI1NksifQ.eyJ4IjoxfQ.AAAAAAAAAAAAAAAAAAAAAAAAAAAAAAAAAAAAAAAAAAEAAAAAAAAAAAAAAAAAAAAAAAAAAAAAAAAAAAAAAAABAg''"
  let ?SIG = "''AAAAAAAAAAAAAAAAAAAAAAAAAAAAAAAAAAAAAAAAAAEAAAAAAAAAAAAAAAAAAAAAAAAAAAAAAAAAAAAAAAABAg''"
  have v: "createJWS ?P ?S [] = Inr ?J" by code_simp
  have o: "?S (DStr (encodeSection (JObj [(''alg'', JStr ''ES256K'')]) @ ''.'' @ encodePayload ?P))
      = Inr (PreEncoded ?SIG)" by code_simp
  have d: "case PreEncoded ?SIG of Structured sg \<Rightarrow> True | PreEncoded s \<Rightarrow> CHR ''.'' \<notin> set s"
    by simp
  have h: "encodeSection (JObj [(''alg'', JStr ''ES256K'')]) = ''eyJhbGciOiJFUzI1NksifQ''"
    by code_simp
  note inst = createJWS_default_header [of ?P ?S, THEN conjunct2, THEN conjunct2, THEN conjunct2,
      THEN spec, THEN mp, OF v]
  from inst have g: "\<exists>g. toGeneralJWS ?J = Inr g
      \<and> map jsig_protected (jws_signatures g) = [Some ''eyJhbGciOiJFUzI1NksifQ'']"
    unfolding h by (rule conjunct1)
  from inst have "\<forall>obj out. ?P = PayloadObject obj
      \<and> ?S (DStr (encodeSection (JObj [(''alg'', JStr ''ES256K'')]) @ ''.'' @ encodePayload ?P)) = Inr out
      \<and> (case out of Structured sg \<Rightarrow> True | PreEncoded s \<Rightarrow> CHR ''.'' \<notin> set s)
      \<longrightarrow> count_list ?J CHR ''.'' = 2"
    by (rule conjunct2 [THEN conjunct2])
  with o d have c: "count_list ?J CHR ''.'' = 2" by blast
  from v c g show ?thesis by (intro conjI)
qed

text \<open>
  Claim C4 as written fails for a string payload: it is used verbatim, so a dot in it is
  one more separator, and \<open>toGeneralJWS\<close> then cuts the payload at that dot.
\<close>

theorem createJWS_string_payload_dots:
  "createJWS (PayloadString ''a.b'') (ES256KSigner_sign fixed_crypto key32 False) [] =
     Inr ''eyJhbGciOiJFUzI1NksifQ.a.b.AAAAAAAAAAAAAAAAAAAAAAAAAAAAAAAAAAAAAAAAAAEAAAAAAAAAAAAAAAAAAAAAAAAAAAAAAAAAAAAAAAABAg''
   \<and> count_list
        ''eyJhbGciOiJFUzI1NksifQ.a.b.AAAAAAAAAAAAAAAAAAAAAAAAAAAAAAAAAAAAAAAAAAEAAAAAAAAAAAAAAAAAAAAAAAAAAAAAAAAAAAAAAAABAg''
        CHR ''.'' = 3
   \<and> toGeneralJWS
        ''eyJhbGciOiJFUzI1NksifQ.a.b.AAAAAAAAAAAAAAAAAAAAAAAAAAAAAAAAAAAAAAAAAAEAAAAAAAAAAAAAAAAAAAAAAAAAAAAAAAAAAAAAAAABAg''
       = Inr \<lparr>jws_payload = Some ''a'',
              jws_signatures =
                [\<lparr>jsig_protected = Some ''eyJhbGciOiJFUzI1NksifQ'', jsig_signature = Some ''b''\<rparr>]\<rparr>"
proof -
  have "createJWS (PayloadString ''a.b'') (ES256KSigner_sign fixed_crypto key32 False) [] =
     Inr ''eyJhbGciOiJFUzI1NksifQ.a.b.AAAAAAAAAAAAAAAAAAAAAAAAAAAAAAAAAAAAAAAAAAEAAAAAAAAAAAAAAAAAAAAAAAAAAAAAAAAAAAAAAAABAg''"
    by code_simp
  moreover have "count_list
        ''eyJhbGciOiJFUzI1NksifQ.a.b.AAAAAAAAAAAAAAAAAAAAAAAAAAAAAAAAAAAAAAAAAAEAAAAAAAAAAAAAAAAAAAAAAAAAAAAAAAAAAAAAAAABAg''
        CHR ''.'' = 3"
    by simp
  moreover have "toGeneralJWS
        ''eyJhbGciOiJFUzI1NksifQ.a.b.AAAAAAAAAAAAAAAAAAAAAAAAAAAAAAAAAAAAAAAAAAEAAAAAAAAAAAAAAAAAAAAAAAAAAAAAAAAAAAAAAAABAg''
       = Inr \<lparr>jws_payload = Some ''a'',
              jws_signatures =
                [\<lparr>jsig_protected = Some ''eyJhbGciOiJFUzI1NksifQ'', jsig_signature = Some ''b''\<rparr>]\<rparr>"
    by code_simp
  ultimately show ?thesis by (intro conjI)
qed

subsection \<open>Objects, stable headers and the provider method\<close>












lemma stable_example:
  "encodeSection (JObj (toStableObject [(''b'', JNum 1), (''10'', JNum 2), (''9'', JNum 3)]))
     = ''eyI5IjozLCIxMCI6MiwiYiI6MX0''"
  by code_simp


lemma ES256KSigner_sign_succeeds:
  assumes "ec_r (keyPair_sign cr key (sha256 cr data)) < 2 ^ 256"
    and "ec_s (keyPair_sign cr key (sha256 cr data)) < 2 ^ 256"
  shows "\<exists>jose. ES256KSigner_sign cr key False data = Inr (PreEncoded (bytesToBase64url jose))
           \<and> length jose = 64"
proof -
  from ES256KSigner_sign_padded [OF refl assms, of False]
  obtain rb sb where "length rb = 32" "length sb = 32"
    "ES256KSigner_sign cr key False data = Inr (PreEncoded (bytesToBase64url (rb @ sb)))"
    by auto
  then show ?thesis by (intro exI [of _ "rb @ sb"]) simp
qed





subsection \<open>The JOSE encoding without the width assumption\<close>

text \<open>
  Without the assumption on \<open>r\<close> and \<open>s\<close>: the missing-recovery-parameter error arises only
  from an absent recovery parameter, an absent one never yields a signature, and every
  signature returned has 65 bytes with the recovery byte last, or 64 bytes.
\<close>

lemma toJose_bytes_length:
  assumes "toJose_bytes sg recoverable = Inr jose"
  shows "length jose = (if recoverable then 65 else 64)"
proof -
  from assms obtain rb j1 sb j2 where
    steps: "u8_set (u8_new (if recoverable then 65 else 64)) rb 0 = Inr j1"
      "u8_set j1 sb 32 = Inr j2"
    and out: "jose = (if recoverable then u8_store j2 64 (to_uint8 (ecdsa_recoveryParam sg)) else j2)"
    by (auto simp: toJose_bytes_def split: sum.splits if_splits)
  from steps have "length j2 = (if recoverable then 65 else 64)"
    by (auto dest!: length_u8_set simp: u8_new_def)
  with out show ?thesis by (simp add: u8_store_def)
qed

lemma fromString_base16_error: "fromString_base16 s = Inl e \<Longrightarrow> e = SyntaxError"
  by (induction s arbitrary: e rule: fromString_base16.induct)
     (auto split: option.splits sum.splits)

lemma toJose_missing_only_if_undefined:
  "toJose sg recoverable = Inl MissingRecoveryParam \<Longrightarrow>
     recoverable \<and> ecdsa_recoveryParam sg = Undefined"
  by (auto simp: toJose_def toJose_bytes_def u8_set_def
      split: sum.splits if_splits dest: fromString_base16_error)

lemma toJose_undefined_never_returns:
  "ecdsa_recoveryParam sg = Undefined \<Longrightarrow> isl (toJose sg True)"
  by (auto simp: toJose_def toJose_bytes_def split: sum.splits)

lemma toJose_recovery_byte:
  assumes "toJose sg True = Inr s"
  shows "\<exists>jose. s = bytesToBase64url jose \<and> length jose = 65
           \<and> jose ! 64 = to_uint8 (ecdsa_recoveryParam sg)"
proof -
  from assms obtain rb j1 sb j2 where
    steps: "u8_set (u8_new 65) rb 0 = Inr j1" "u8_set j1 sb 32 = Inr j2"
    and out: "s = bytesToBase64url (u8_store j2 64 (to_uint8 (ecdsa_recoveryParam sg)))"
    by (auto simp: toJose_def toJose_bytes_def split: sum.splits if_splits)
  from steps have "length j2 = 65"
    by (auto dest!: length_u8_set simp: u8_new_def)
  then have "length (u8_store j2 64 (to_uint8 (ecdsa_recoveryParam sg))) = 65"
    "u8_store j2 64 (to_uint8 (ecdsa_recoveryParam sg)) ! 64 = to_uint8 (ecdsa_recoveryParam sg)"
    by (simp_all add: u8_store_def)
  with out show ?thesis by blast
qed




subsection \<open>Layout of the JOSE encoding\<close>




end
